theory Spec2Isabelle
  imports Complex_Main "HOL-Library.List_Lexorder" "HOL-Library.Sublist"
begin

section \<open>Strings\<close>

text \<open>
  A JavaScript string is the list of its UTF-16 code units, each a natural number (below
  65536 in JavaScript; no function here makes a larger one out of smaller ones). The
  default \<open>Array.prototype.sort\<close> compares strings code unit by code unit, a proper prefix
  first: the lexicographic order of \<open>HOL-Library.List_Lexorder\<close>. A text of the source in
  ASCII is written \<open>utf16 ''...''\<close>, one of its characters \<open>of_char CHR ''.''\<close>.
\<close>

type_synonym jsstring = "nat list"

definition utf16 :: "string \<Rightarrow> jsstring" where
  "utf16 s = map of_char s"

definition isWhiteSpace :: "nat \<Rightarrow> bool" where
  \<comment> \<open>WhiteSpace and LineTerminator: TAB, LF, VT, FF, CR, SP, NBSP, the space separators
      U+1680, U+2000 to U+200A, U+202F, U+205F and U+3000, LS, PS and ZWNBSP\<close>
  "isWhiteSpace c \<longleftrightarrow>
     c \<in> set [0x09, 0x0A, 0x0B, 0x0C, 0x0D, 0x20, 0xA0, 0x1680, 0x2028, 0x2029, 0x202F, 0x205F,
              0x3000, 0xFEFF]
     \<or> (0x2000 \<le> c \<and> c \<le> 0x200A)"

definition trim :: "jsstring \<Rightarrow> jsstring" where
  \<comment> \<open>\<open>String.prototype.trim\<close>\<close>
  "trim s = rev (dropWhile isWhiteSpace (rev (dropWhile isWhiteSpace s)))"

fun split :: "nat \<Rightarrow> jsstring \<Rightarrow> jsstring list" where
  \<comment> \<open>\<open>s.split(sep)\<close> for a one-character separator; never the empty list\<close>
  "split sep [] = [[]]"
| "split sep (c # cs) =
     (if c = sep then [] # split sep cs
      else (case split sep cs of [] \<Rightarrow> [[c]] | p # ps \<Rightarrow> (c # p) # ps))"

definition isDigit :: "nat \<Rightarrow> bool" where
  "isDigit c \<longleftrightarrow> of_char CHR ''0'' \<le> c \<and> c \<le> of_char CHR ''9''"

definition digitValue :: "nat \<Rightarrow> nat" where
  "digitValue c = c - of_char CHR ''0''"

definition digitChar :: "nat \<Rightarrow> nat" where
  "digitChar n = of_char CHR ''0'' + n mod 10"

fun decimalValue :: "nat \<Rightarrow> jsstring \<Rightarrow> nat" where
  \<comment> \<open>the value of a digit string, most significant digit first, after the digits read so far\<close>
  "decimalValue acc [] = acc"
| "decimalValue acc (c # cs) = decimalValue (10 * acc + digitValue c) cs"

fun padStart :: "nat \<Rightarrow> nat \<Rightarrow> jsstring" where
  \<comment> \<open>the last \<open>w\<close> decimal digits of \<open>n\<close>, zero-padded on the left\<close>
  "padStart 0 n = []"
| "padStart (Suc w) n = padStart w (n div 10) @ [digitChar n]"

section \<open>Calendar dates and local time\<close>

text \<open>
  The local calendar fields of a JavaScript \<open>Date\<close>, named after their getters:
  \<open>getMonth\<close> counts from 0, \<open>getDate\<close> from 1. A \<open>clock\<close> is the local reading of a
  \<open>Date\<close>, the calendar fields with the time of day to the second (the milliseconds play
  no part here: the transitions of a time zone fall on whole seconds). A \<open>Date\<close> is the
  reading together with the time value.
\<close>

record civil =
  getFullYear :: int
  getMonth :: nat
  getDate :: nat

record clock = civil +
  getHours :: nat
  getMinutes :: nat
  getSeconds :: nat

record Date = clock +
  getTime :: int

text \<open>
  The browser, as far as the program meets its time zone and its date parser. \<open>setDate\<close>
  asks for a local reading; \<open>resolve\<close> gives the local reading of the time value that
  the \<open>Date\<close> then holds: the reading asked for where that local time exists, and a later
  reading where the zone skipped it (the engine reads a skipped local time with the offset
  before the transition). \<open>utcOffset\<close> is the offset of local time from UTC, in minutes
  between \<open>-1440\<close> and \<open>1440\<close>, in force at UTC midnight of the given date.
  \<open>parseOther\<close> is the local reading that \<open>new Date(s)\<close> gives for a text that is not of
  the date-only form, \<open>None\<close> for an invalid date: engines differ on such texts.
\<close>

record browser =
  resolve :: "clock \<Rightarrow> clock"
  utcOffset :: "civil \<Rightarrow> int"
  parseOther :: "jsstring \<Rightarrow> clock option"

definition isLeapYear :: "int \<Rightarrow> bool" where
  "isLeapYear y \<longleftrightarrow> y mod 4 = 0 \<and> (y mod 100 \<noteq> 0 \<or> y mod 400 = 0)"

definition daysInMonth :: "int \<Rightarrow> nat \<Rightarrow> nat" where
  "daysInMonth y m =
     (if m = 1 then (if isLeapYear y then 29 else 28)
      else if m = 3 \<or> m = 5 \<or> m = 8 \<or> m = 10 then 30 else 31)"

definition validDate :: "'a civil_scheme \<Rightarrow> bool" where
  "validDate d \<longleftrightarrow>
     getMonth d < 12 \<and> 1 \<le> getDate d \<and> getDate d \<le> daysInMonth (getFullYear d) (getMonth d)"

definition previousDay :: "'a civil_scheme \<Rightarrow> 'a civil_scheme" where
  \<comment> \<open>the reading that \<open>setDate(getDate() - 1)\<close> asks for: the same time on the day before in
      the calendar, day 0 being the last day of the month before\<close>
  "previousDay d =
     (if 1 < getDate d then d\<lparr>getDate := getDate d - 1\<rparr>
      else if 0 < getMonth d then
        d\<lparr>getMonth := getMonth d - 1, getDate := daysInMonth (getFullYear d) (getMonth d - 1)\<rparr>
      else d\<lparr>getFullYear := getFullYear d - 1, getMonth := 11, getDate := 31\<rparr>)"

definition decrementDate :: "browser \<Rightarrow> clock \<Rightarrow> clock" where
  \<comment> \<open>\<open>cursor.setDate(cursor.getDate() - 1)\<close>, seen through the local getters\<close>
  "decrementDate z cursor = resolve z (previousDay cursor)"

definition Date_UTC :: "int \<Rightarrow> nat \<Rightarrow> nat \<Rightarrow> civil" where
  \<comment> \<open>the UTC calendar fields of \<open>new Date(Date.UTC(y, m, d))\<close> for the fields of a valid
      date: years 0 to 99 are read as 1900 to 1999, and a day past the end of the month
      (29 February of year 0 read in 1900) runs over into the next month\<close>
  "Date_UTC y m d =
     (let y' = (if 0 \<le> y \<and> y \<le> 99 then 1900 + y else y) in
      if daysInMonth y' m < d
      then \<lparr>getFullYear = y', getMonth = m + 1, getDate = d - daysInMonth y' m\<rparr>
      else \<lparr>getFullYear = y', getMonth = m, getDate = d\<rparr>)"

definition toISOString :: "civil \<Rightarrow> jsstring" where
  \<comment> \<open>\<open>toISOString()\<close> at UTC midnight: four digits for the years 0 to 9999, a sign and six
      digits otherwise\<close>
  "toISOString d =
     (let y = getFullYear d in
      (if 0 \<le> y \<and> y \<le> 9999 then padStart 4 (nat y)
       else (if y < 0 then utf16 ''-'' else utf16 ''+'') @ padStart 6 (nat \<bar>y\<bar>))
      @ utf16 ''-'' @ padStart 2 (getMonth d + 1) @ utf16 ''-'' @ padStart 2 (getDate d)
      @ utf16 ''T00:00:00.000Z'')"

definition getDateKey :: "'a civil_scheme \<Rightarrow> jsstring" where
  "getDateKey inputDate =
     take 10 (toISOString
       (Date_UTC (getFullYear inputDate) (getMonth inputDate) (getDate inputDate)))"

definition parseDateOnly :: "jsstring \<Rightarrow> civil option" where
  \<comment> \<open>the date-only form \<open>YYYY-MM-DD\<close> of the Date Time String Format, with a month from 01
      to 12 and a day from 01 to 31; a day past the end of the month runs over into the
      next month, as in V8. \<open>None\<close> is a text of another form.\<close>
  "parseDateOnly s =
     (if length s = 10 \<and> s ! 4 = of_char CHR ''-'' \<and> s ! 7 = of_char CHR ''-''
         \<and> list_all isDigit (take 4 s @ take 2 (drop 5 s) @ drop 8 s)
      then
        (let y = int (decimalValue 0 (take 4 s));
             m = decimalValue 0 (take 2 (drop 5 s));
             d = decimalValue 0 (drop 8 s)
         in if 1 \<le> m \<and> m \<le> 12 \<and> 1 \<le> d \<and> d \<le> 31
            then Some (if daysInMonth y (m - 1) < d
                       then \<lparr>getFullYear = y, getMonth = m, getDate = d - daysInMonth y (m - 1)\<rparr>
                       else \<lparr>getFullYear = y, getMonth = m - 1, getDate = d\<rparr>)
            else None)
      else None)"

definition localReading :: "civil \<Rightarrow> int \<Rightarrow> clock" where
  \<comment> \<open>the local reading of UTC midnight of a date, at an offset in minutes: behind UTC it
      is still the day before\<close>
  "localReading d minutes =
     (let day = (if minutes < 0 then previousDay d else d);
          m = nat (minutes mod 1440)
      in \<lparr>getFullYear = getFullYear day, getMonth = getMonth day, getDate = getDate day,
          getHours = m div 60, getMinutes = m mod 60, getSeconds = 0\<rparr>)"

definition newDate :: "browser \<Rightarrow> jsstring \<Rightarrow> clock option" where
  \<comment> \<open>\<open>new Date(s)\<close>, seen through the local getters, \<open>None\<close> for an invalid date: a
      date-only text denotes UTC midnight\<close>
  "newDate z s =
     (case parseDateOnly s of
        None \<Rightarrow> parseOther z s
      | Some d \<Rightarrow> Some (localReading d (utcOffset z d)))"

text \<open>
  An independent count of calendar days, used to state that dates are consecutive: the
  number of days from the start of year 0 of the proleptic Gregorian calendar.
\<close>

definition daysBeforeYear :: "int \<Rightarrow> int" where
  "daysBeforeYear y = 365 * y + (y - 1) div 4 - (y - 1) div 100 + (y - 1) div 400"

definition daysBeforeMonth :: "int \<Rightarrow> nat \<Rightarrow> int" where
  "daysBeforeMonth y m = (\<Sum>k < m. int (daysInMonth y k))"

definition dayNumber :: "'a civil_scheme \<Rightarrow> int" where
  "dayNumber d =
     daysBeforeYear (getFullYear d) + daysBeforeMonth (getFullYear d) (getMonth d)
       + int (getDate d)"

definition plainDate :: "'a civil_scheme \<Rightarrow> bool" where
  \<comment> \<open>a valid date whose key is the plain rendering \<open>YYYY-MM-DD\<close> of its own fields\<close>
  "plainDate d \<longleftrightarrow> validDate d \<and> 100 \<le> getFullYear d \<and> getFullYear d \<le> 9999"

subsection \<open>The last seven days\<close>

function getLastSevenDays_loop :: "browser \<Rightarrow> nat \<Rightarrow> jsstring list \<Rightarrow> clock \<Rightarrow> jsstring list" where
  \<comment> \<open>\<open>for (let i = 0; i < 7; i += 1) { days.unshift(getDateKey(cursor)); ... }\<close>\<close>
  "getLastSevenDays_loop z i days cursor =
     (if i < 7
      then getLastSevenDays_loop z (i + 1) (getDateKey cursor # days) (decrementDate z cursor)
      else days)"
  by pat_completeness auto
termination
  by (relation "measure (\<lambda>(z, i, days, cursor). 7 - i)") auto

definition getLastSevenDays :: "browser \<Rightarrow> clock \<Rightarrow> jsstring list" where
  \<comment> \<open>the second argument is the local reading of \<open>new Date()\<close>\<close>
  "getLastSevenDays z now = getLastSevenDays_loop z 0 [] now"

section \<open>Sets and numbers of the platform\<close>

text \<open>
  A JavaScript \<open>Set\<close> of strings is the list of its members in insertion order.
\<close>

definition Set_has :: "'a list \<Rightarrow> 'a \<Rightarrow> bool" where
  "Set_has s x \<longleftrightarrow> x \<in> set s"

definition Set_add :: "'a \<Rightarrow> 'a list \<Rightarrow> 'a list" where
  "Set_add x s = (if x \<in> set s then s else s @ [x])"

definition Set_delete :: "'a \<Rightarrow> 'a list \<Rightarrow> 'a list" where
  "Set_delete x s = filter (\<lambda>y. y \<noteq> x) s"

definition newSet :: "'a list \<Rightarrow> 'a list" where
  \<comment> \<open>\<open>new Set(xs)\<close>\<close>
  "newSet xs = fold Set_add xs []"

text \<open>
  The values that the reminder arithmetic meets: \<open>undefined\<close> (a missing array element)
  and the numbers. A number is a double: a finite one is given by its exact rational
  value, and every result of a conversion or an operation is rounded to the nearest
  double, ties to even, or overflows to an infinity (\<open>toDouble\<close>). Zero carries no sign:
  the comparisons and the arithmetic of the reminder evaluation do not tell \<open>-0\<close> from 0.
\<close>

datatype jsvalue = Undefined | NaN | Finite rat | PosInfinity | NegInfinity

definition js_signed_infinity :: "bool \<Rightarrow> jsvalue" where
  "js_signed_infinity negative = (if negative then NegInfinity else PosInfinity)"

function bitLength :: "nat \<Rightarrow> nat" where
  \<comment> \<open>the number of binary digits\<close>
  "bitLength n = (if n = 0 then 0 else Suc (bitLength (n div 2)))"
  by pat_completeness auto
termination
  by (relation "measure id") auto

definition binaryExponent :: "rat \<Rightarrow> int" where
  \<comment> \<open>the exponent \<open>e\<close> with \<open>2 ^ e \<le> a < 2 ^ (e + 1)\<close>, for a positive \<open>a\<close>\<close>
  "binaryExponent a =
     (if 1 \<le> a then int (bitLength (nat \<lfloor>a\<rfloor>)) - 1
      else - int (bitLength (nat (\<lceil>1 / a\<rceil> - 1))))"

definition twoToThe :: "int \<Rightarrow> rat" where
  "twoToThe e = (if 0 \<le> e then 2 ^ nat e else 1 / 2 ^ nat (- e))"

definition roundHalfEven :: "rat \<Rightarrow> int" where
  "roundHalfEven q =
     (let f = \<lfloor>q\<rfloor>; r = q - of_int f
      in if r < 1 / 2 then f else if 1 / 2 < r then f + 1 else if even f then f else f + 1)"

definition toDouble :: "rat \<Rightarrow> jsvalue" where
  \<comment> \<open>the double nearest to a rational: 53 significant binary digits, the exponent of the
      smallest normal double for everything below it, an infinity from \<open>2 ^ 1024\<close> on\<close>
  "toDouble x =
     (if x = 0 then Finite 0
      else
        (let e = max (binaryExponent \<bar>x\<bar>) (- 1022);
             ulp = twoToThe (e - 52);
             r = of_int (roundHalfEven (\<bar>x\<bar> / ulp)) * ulp
         in if 2 ^ 1024 \<le> r then js_signed_infinity (x < 0)
            else Finite (if x < 0 then - r else r)))"

fun ToNumber :: "jsvalue \<Rightarrow> jsvalue" where
  "ToNumber Undefined = NaN"
| "ToNumber v = v"

definition Number_isNaN :: "jsvalue \<Rightarrow> bool" where
  \<comment> \<open>\<open>Number.isNaN\<close> does not convert its argument: \<open>undefined\<close> is not \<open>NaN\<close>\<close>
  "Number_isNaN v \<longleftrightarrow> v = NaN"

fun js_less_num :: "jsvalue \<Rightarrow> jsvalue \<Rightarrow> bool" where
  "js_less_num (Finite x) (Finite y) = (x < y)"
| "js_less_num (Finite x) PosInfinity = True"
| "js_less_num NegInfinity (Finite y) = True"
| "js_less_num NegInfinity PosInfinity = True"
| "js_less_num a b = False"

definition js_less :: "jsvalue \<Rightarrow> jsvalue \<Rightarrow> bool" where
  \<comment> \<open>\<open>a < b\<close>: false as soon as one side converts to \<open>NaN\<close>\<close>
  "js_less a b = js_less_num (ToNumber a) (ToNumber b)"

definition js_greater :: "jsvalue \<Rightarrow> jsvalue \<Rightarrow> bool" where
  \<comment> \<open>\<open>a > b\<close>\<close>
  "js_greater a b = js_less_num (ToNumber b) (ToNumber a)"

definition js_less_eq :: "jsvalue \<Rightarrow> jsvalue \<Rightarrow> bool" where
  \<comment> \<open>\<open>a <= b\<close>\<close>
  "js_less_eq a b \<longleftrightarrow>
     ToNumber a \<noteq> NaN \<and> ToNumber b \<noteq> NaN \<and> \<not> js_less_num (ToNumber b) (ToNumber a)"

fun js_negate :: "jsvalue \<Rightarrow> jsvalue" where
  "js_negate (Finite x) = Finite (- x)"
| "js_negate PosInfinity = NegInfinity"
| "js_negate NegInfinity = PosInfinity"
| "js_negate v = NaN"

fun js_abs :: "jsvalue \<Rightarrow> jsvalue" where
  \<comment> \<open>\<open>Math.abs\<close>\<close>
  "js_abs (Finite x) = Finite \<bar>x\<bar>"
| "js_abs PosInfinity = PosInfinity"
| "js_abs NegInfinity = PosInfinity"
| "js_abs v = NaN"

fun js_plus_num :: "jsvalue \<Rightarrow> jsvalue \<Rightarrow> jsvalue" where
  "js_plus_num (Finite x) (Finite y) = toDouble (x + y)"
| "js_plus_num PosInfinity NegInfinity = NaN"
| "js_plus_num NegInfinity PosInfinity = NaN"
| "js_plus_num PosInfinity (Finite y) = PosInfinity"
| "js_plus_num PosInfinity PosInfinity = PosInfinity"
| "js_plus_num (Finite x) PosInfinity = PosInfinity"
| "js_plus_num NegInfinity (Finite y) = NegInfinity"
| "js_plus_num NegInfinity NegInfinity = NegInfinity"
| "js_plus_num (Finite x) NegInfinity = NegInfinity"
| "js_plus_num a b = NaN"

definition js_plus :: "jsvalue \<Rightarrow> jsvalue \<Rightarrow> jsvalue" where
  \<comment> \<open>\<open>a + b\<close> on numbers and \<open>undefined\<close>\<close>
  "js_plus a b = js_plus_num (ToNumber a) (ToNumber b)"

definition js_minus :: "jsvalue \<Rightarrow> jsvalue \<Rightarrow> jsvalue" where
  \<comment> \<open>\<open>a - b\<close>\<close>
  "js_minus a b = js_plus_num (ToNumber a) (js_negate (ToNumber b))"

fun js_times_num :: "jsvalue \<Rightarrow> jsvalue \<Rightarrow> jsvalue" where
  "js_times_num (Finite x) (Finite y) = toDouble (x * y)"
| "js_times_num (Finite x) PosInfinity = (if x = 0 then NaN else js_signed_infinity (x < 0))"
| "js_times_num (Finite x) NegInfinity = (if x = 0 then NaN else js_signed_infinity (0 < x))"
| "js_times_num PosInfinity (Finite y) = (if y = 0 then NaN else js_signed_infinity (y < 0))"
| "js_times_num NegInfinity (Finite y) = (if y = 0 then NaN else js_signed_infinity (0 < y))"
| "js_times_num PosInfinity PosInfinity = PosInfinity"
| "js_times_num NegInfinity NegInfinity = PosInfinity"
| "js_times_num PosInfinity NegInfinity = NegInfinity"
| "js_times_num NegInfinity PosInfinity = NegInfinity"
| "js_times_num a b = NaN"

definition js_times :: "jsvalue \<Rightarrow> jsvalue \<Rightarrow> jsvalue" where
  \<comment> \<open>\<open>a * b\<close>\<close>
  "js_times a b = js_times_num (ToNumber a) (ToNumber b)"


text \<open>
  \<open>Number(s)\<close> on a string: the StringNumericLiteral grammar. Surrounding white space is
  dropped, the empty text is 0, a text that is no numeric literal is \<open>NaN\<close>, and the
  mathematical value of a literal is rounded to a double.
\<close>

definition radixDigitValue :: "nat \<Rightarrow> nat option" where
  "radixDigitValue c =
     (if of_char CHR ''0'' \<le> c \<and> c \<le> of_char CHR ''9'' then Some (c - of_char CHR ''0'')
      else if of_char CHR ''a'' \<le> c \<and> c \<le> of_char CHR ''f'' then Some (c - of_char CHR ''a'' + 10)
      else if of_char CHR ''A'' \<le> c \<and> c \<le> of_char CHR ''F'' then Some (c - of_char CHR ''A'' + 10)
      else None)"

fun radixValue :: "nat \<Rightarrow> nat \<Rightarrow> jsstring \<Rightarrow> nat option" where
  \<comment> \<open>the value of a digit string in the given radix, \<open>None\<close> at a character that is no digit
      of that radix\<close>
  "radixValue radix acc [] = Some acc"
| "radixValue radix acc (c # cs) =
     (case radixDigitValue c of
        None \<Rightarrow> None
      | Some v \<Rightarrow> if v < radix then radixValue radix (radix * acc + v) cs else None)"

definition nonDecimalIntegerLiteral :: "jsstring \<Rightarrow> jsvalue option" where
  \<comment> \<open>\<open>0x\<close>, \<open>0o\<close> and \<open>0b\<close> literals, which take no sign\<close>
  "nonDecimalIntegerLiteral t =
     (case t of
        z # p # d # ds \<Rightarrow>
          (if z \<noteq> of_char CHR ''0'' then None
           else
             (let radix = (if p = of_char CHR ''x'' \<or> p = of_char CHR ''X'' then 16
                           else if p = of_char CHR ''o'' \<or> p = of_char CHR ''O'' then 8
                           else if p = of_char CHR ''b'' \<or> p = of_char CHR ''B'' then 2
                           else (0::nat))
              in if radix = 0 then None
                 else map_option (\<lambda>n. toDouble (of_nat n)) (radixValue radix 0 (d # ds))))
      | _ \<Rightarrow> None)"

definition exponentPart :: "jsstring \<Rightarrow> int option" where
  \<comment> \<open>an optional \<open>e\<close> or \<open>E\<close>, an optional sign and at least one digit, up to the end of the
      text; an absent exponent is 0\<close>
  "exponentPart r =
     (case r of
        [] \<Rightarrow> Some 0
      | c # r' \<Rightarrow>
          (if c \<noteq> of_char CHR ''e'' \<and> c \<noteq> of_char CHR ''E'' then None
           else
             (let negative = (r' \<noteq> [] \<and> hd r' = of_char CHR ''-'');
                  digits = (if r' \<noteq> [] \<and> (hd r' = of_char CHR ''-'' \<or> hd r' = of_char CHR ''+'')
                            then tl r' else r')
              in if digits = [] \<or> \<not> list_all isDigit digits then None
                 else Some (if negative then - int (decimalValue 0 digits)
                            else int (decimalValue 0 digits)))))"

definition strUnsignedDecimalLiteral :: "jsstring \<Rightarrow> jsvalue" where
  "strUnsignedDecimalLiteral t =
     (if t = utf16 ''Infinity'' then PosInfinity
      else
        (let intDigits = takeWhile isDigit t;
             r1 = dropWhile isDigit t;
             hasDot = (r1 \<noteq> [] \<and> hd r1 = of_char CHR ''.'');
             fracDigits = (if hasDot then takeWhile isDigit (tl r1) else []);
             r2 = (if hasDot then dropWhile isDigit (tl r1) else r1)
         in if intDigits = [] \<and> fracDigits = [] then NaN
            else
              (case exponentPart r2 of
                 None \<Rightarrow> NaN
               | Some e \<Rightarrow>
                   (let mantissa = of_nat (decimalValue 0 intDigits)
                          + of_nat (decimalValue 0 fracDigits) / 10 ^ length fracDigits
                    in toDouble (if 0 \<le> e then mantissa * 10 ^ nat e
                                 else mantissa / 10 ^ nat (- e))))))"

definition Number :: "jsstring \<Rightarrow> jsvalue" where
  "Number s =
     (let t = trim s in
      case t of
        [] \<Rightarrow> Finite 0
      | c # r \<Rightarrow>
          (case nonDecimalIntegerLiteral t of
             Some v \<Rightarrow> v
           | None \<Rightarrow>
               if c = of_char CHR ''+'' then strUnsignedDecimalLiteral r
               else if c = of_char CHR ''-'' then js_negate (strUnsignedDecimalLiteral r)
               else strUnsignedDecimalLiteral t))"

section \<open>Habits and the component state\<close>

record Habit =
  habit_id :: jsstring
  name :: jsstring
  emoji :: jsstring
  color :: jsstring
  goalPerWeek :: int
  reminders :: "jsstring list"
  completions :: "jsstring list"
  createdAt :: jsstring

record ReminderAlert =
  alert_id :: jsstring
  habitId :: jsstring
  habitName :: jsstring
  time :: jsstring
  timestamp :: int

text \<open>
  The fields \<open>habit_id\<close> and \<open>alert_id\<close> are the source's two \<open>id\<close> fields. The weekly
  goal comes from a numeric input and is an integer here.
\<close>

record ReminderCache =
  date :: jsstring
  keys :: "jsstring list"

text \<open>
  The state of the \<open>Home\<close> component: its \<open>useState\<close> variables and the reminder cache
  held in \<open>reminderCacheRef.current\<close>. The form variables \<open>name\<close>, \<open>emoji\<close> and
  \<open>goalPerWeek\<close> carry the suffix \<open>_state\<close>.
\<close>

record Home =
  habits :: "Habit list"
  selectedHabitId :: "jsstring option"
  name_state :: jsstring
  emoji_state :: jsstring
  goalPerWeek_state :: int
  reminderTime :: jsstring
  alerts :: "ReminderAlert list"
  reminderCacheRef :: ReminderCache


section \<open>Seed data and loading\<close>

definition STORAGE_KEY :: jsstring where
  "STORAGE_KEY = utf16 ''pulse-habits-state-v1''"

definition GRADIENTS :: "jsstring list" where
  "GRADIENTS =
     [utf16 ''from-sky-500 to-cyan-400'', utf16 ''from-purple-500 to-indigo-500'',
      utf16 ''from-amber-500 to-orange-500'', utf16 ''from-emerald-500 to-teal-400'',
      utf16 ''from-rose-500 to-pink-500'', utf16 ''from-lime-500 to-emerald-400'']"

definition DEFAULT_HABITS :: "jsstring \<Rightarrow> Habit list" where
  \<comment> \<open>the argument is \<open>new Date().toISOString()\<close> at module load; the emoji are the
      characters of the source file\<close>
  "DEFAULT_HABITS loadedAt =
     [\<lparr>habit_id = utf16 ''habit-1'', name = utf16 ''Morning Run'',
       emoji = [0xF0, 0x178, 0x192, 0xE2, 0x20AC, 0xE2, 0x2122, 0x20AC, 0xEF, 0xB8],
       color = utf16 ''from-violet-500 to-fuchsia-500'', goalPerWeek = 5,
       reminders = [utf16 ''06:30''], completions = [], createdAt = loadedAt\<rparr>,
      \<lparr>habit_id = utf16 ''habit-2'', name = utf16 ''Mindful Break'',
       emoji = [0xF0, 0x178, 0xA7, 0x2DC],
       color = utf16 ''from-emerald-500 to-teal-400'', goalPerWeek = 7,
       reminders = [utf16 ''12:00'', utf16 ''20:00''], completions = [],
       createdAt = loadedAt\<rparr>]"

definition buildDefaultHabits :: "jsstring \<Rightarrow> civil \<Rightarrow> jsstring \<Rightarrow> Habit list" where
  \<comment> \<open>the arguments after \<open>loadedAt\<close> are the local date of \<open>new Date()\<close> and
      \<open>new Date().toISOString()\<close> at the call\<close>
  "buildDefaultHabits loadedAt now nowISO =
     (let today = getDateKey now in
      map (\<lambda>(index, habit).
             habit\<lparr>completions := (if index = 0 then [today] else []), createdAt := nowISO\<rparr>)
          (zip [0 ..< length (DEFAULT_HABITS loadedAt)] (DEFAULT_HABITS loadedAt)))"

datatype error = RangeError | SyntaxError

datatype json =
    JNull
  | JBoolean bool
  | JNumber rat
  | JString jsstring
  | JArray "json list"
  | JObject "(jsstring \<times> json) list"

text \<open>
  What \<open>loadHabitsFromStorage\<close> returns: the value that \<open>JSON.parse\<close> produced, passed on
  under the type \<open>Habit[]\<close> without any check, or the default habits.
\<close>

datatype loaded = Parsed json | Defaults "Habit list"

definition loadHabitsFromStorage ::
  "(jsstring \<Rightarrow> error + json) \<Rightarrow> (jsstring \<rightharpoonup> jsstring) option \<Rightarrow> jsstring \<Rightarrow> civil \<Rightarrow> jsstring
     \<Rightarrow> loaded"
where
  \<comment> \<open>\<open>JSON_parse\<close> is the platform's \<open>JSON.parse\<close>, \<open>Inl\<close> for a thrown error; \<open>window\<close>
      is \<open>None\<close> where \<open>typeof window === "undefined"\<close> and else the content of
      \<open>localStorage\<close>, in which an absent key reads as \<open>null\<close>\<close>
  "loadHabitsFromStorage JSON_parse window loadedAt now nowISO =
     (case window of
        None \<Rightarrow> Defaults (buildDefaultHabits loadedAt now nowISO)
      | Some localStorage \<Rightarrow>
          (case localStorage STORAGE_KEY of
             None \<Rightarrow> Defaults (buildDefaultHabits loadedAt now nowISO)
           | Some raw \<Rightarrow>
               if raw \<noteq> [] then
                 (case JSON_parse raw of
                    Inr parsed \<Rightarrow> Parsed parsed
                  | Inl e \<Rightarrow> Defaults (buildDefaultHabits loadedAt now nowISO))
               else Defaults (buildDefaultHabits loadedAt now nowISO)))"

section \<open>Streaks\<close>

partial_function (option) computeStreak_loop ::
  "browser \<Rightarrow> jsstring list \<Rightarrow> clock \<Rightarrow> nat \<Rightarrow> nat option"
where
  \<comment> \<open>the \<open>while (true)\<close> loop; \<open>None\<close> is a loop that never breaks\<close>
  "computeStreak_loop z completionSet today streak =
     (if Set_has completionSet (getDateKey today)
      then computeStreak_loop z completionSet (decrementDate z today) (streak + 1)
      else Some streak)"

definition computeStreak :: "browser \<Rightarrow> Habit \<Rightarrow> clock \<Rightarrow> nat option" where
  \<comment> \<open>the last argument is the local reading of \<open>new Date()\<close>\<close>
  "computeStreak z habit now = computeStreak_loop z (newSet (completions habit)) now 0"

fun getLongestStreak_loop ::
  "browser \<Rightarrow> jsstring list \<Rightarrow> nat \<Rightarrow> nat \<Rightarrow> jsstring option \<Rightarrow> error + nat"
where
  \<comment> \<open>the \<open>for\<close> loop over \<open>sorted\<close> with the variables \<open>longest\<close>, \<open>current\<close> and
      \<open>previous\<close>, the element \<open>date\<close> written \<open>day\<close>; \<open>getDateKey\<close> of an invalid date
      throws a \<open>RangeError\<close>\<close>
  "getLongestStreak_loop z [] longest current previous = Inr longest"
| "getLongestStreak_loop z (day # rest) longest current previous =
     (if previous = None \<or> previous = Some []
      then getLongestStreak_loop z rest (max longest 1) 1 (Some day)
      else
        (case newDate z (the previous) of
           None \<Rightarrow> Inl RangeError
         | Some prevDate \<Rightarrow>
             (let expected = getDateKey (decrementDate z prevDate);
                  current' = (if day = expected then current + 1 else 1)
              in getLongestStreak_loop z rest (max longest current') current' (Some day))))"

definition getLongestStreak :: "browser \<Rightarrow> Habit \<Rightarrow> error + nat" where
  "getLongestStreak z habit =
     getLongestStreak_loop z (rev (sort (completions habit))) 0 0 None"


section \<open>Reminder evaluation\<close>

function showNat :: "nat \<Rightarrow> jsstring" where
  "showNat n = (if n < 10 then [digitChar n] else showNat (n div 10) @ [digitChar n])"
  by pat_completeness auto
termination
  by (relation "measure id") auto

definition ToString :: "int \<Rightarrow> jsstring" where
  \<comment> \<open>an integer inside a template literal\<close>
  "ToString i = (if i < 0 then utf16 ''-'' @ showNat (nat (- i)) else showNat (nat i))"

definition tick_reminder ::
  "Date \<Rightarrow> jsstring \<Rightarrow> jsvalue \<Rightarrow> Habit \<Rightarrow> jsstring
     \<Rightarrow> jsstring list \<times> ReminderAlert list \<Rightarrow> jsstring list \<times> ReminderAlert list"
where
  \<comment> \<open>the body of \<open>habit.reminders.forEach((time) => ...)\<close>, the element \<open>time\<close> written
      \<open>reminder\<close>, on the keys of the cache and \<open>upcomingAlerts\<close>\<close>
  "tick_reminder now dateKey nowSeconds habit reminder acc =
     (let parts = map Number (split (of_char CHR '':'') reminder);
          hour = (case parts of [] \<Rightarrow> Undefined | h # _ \<Rightarrow> h);
          minute = (case parts of _ # m # _ \<Rightarrow> m | _ \<Rightarrow> Undefined)
      in if Number_isNaN hour \<or> Number_isNaN minute
            \<or> js_less hour (Finite 0) \<or> js_greater hour (Finite 23)
            \<or> js_less minute (Finite 0) \<or> js_greater minute (Finite 59)
         then acc
         else
           (let targetSeconds = js_plus (js_times hour (Finite 3600)) (js_times minute (Finite 60));
                delta = js_abs (js_minus nowSeconds targetSeconds);
                cacheKey = habit_id habit @ utf16 ''-'' @ reminder @ utf16 ''-'' @ dateKey
            in if js_less_eq delta (Finite 30) \<and> \<not> Set_has (fst acc) cacheKey
               then (Set_add cacheKey (fst acc),
                     snd acc @ [\<lparr>alert_id = cacheKey @ utf16 ''-'' @ ToString (getTime now),
                                 habitId = habit_id habit, habitName = name habit,
                                 time = reminder, timestamp = getTime now\<rparr>])
               else acc))"

definition tick_habits ::
  "Date \<Rightarrow> jsstring \<Rightarrow> jsvalue \<Rightarrow> Habit list
     \<Rightarrow> jsstring list \<times> ReminderAlert list \<Rightarrow> jsstring list \<times> ReminderAlert list"
where
  \<comment> \<open>\<open>habits.forEach((habit) => habit.reminders.forEach(...))\<close>\<close>
  "tick_habits now dateKey nowSeconds hs acc =
     fold (\<lambda>habit. fold (tick_reminder now dateKey nowSeconds habit) (reminders habit)) hs acc"

definition tick :: "Date \<Rightarrow> Home \<Rightarrow> Home" where
  \<comment> \<open>\<open>nowSeconds\<close> is a sum of small whole numbers (hours below 24, minutes and seconds
      below 60), which the doubles compute exactly\<close>
  "tick now st =
     (let dateKey = getDateKey now;
          cache = (if date (reminderCacheRef st) \<noteq> dateKey
                   then \<lparr>date = dateKey, keys = []\<rparr> else reminderCacheRef st);
          nowSeconds =
            Finite (of_nat (getHours now * 3600 + getMinutes now * 60 + getSeconds now));
          (keys', upcomingAlerts) = tick_habits now dateKey nowSeconds (habits st) (keys cache, [])
      in st\<lparr>reminderCacheRef := cache\<lparr>keys := keys'\<rparr>,
            alerts := (if 0 < length upcomingAlerts then alerts st @ upcomingAlerts
                       else alerts st)\<rparr>)"

section \<open>Handlers of the habit store\<close>

definition toggleCompletions :: "jsstring \<Rightarrow> jsstring list \<Rightarrow> jsstring list" where
  \<comment> \<open>the new completions of the habit that matches: \<open>new Set(habit.completions)\<close>, the
      key deleted if present and added if not, then \<open>Array.from(completions).sort()\<close>\<close>
  "toggleCompletions dateKey cs =
     (let completionSet = newSet cs;
          completionSet' =
            (if Set_has completionSet dateKey then Set_delete dateKey completionSet
             else Set_add dateKey completionSet)
      in sort completionSet')"

definition handleToggleCompletion :: "jsstring \<Rightarrow> jsstring \<Rightarrow> Home \<Rightarrow> Home" where
  "handleToggleCompletion habitId' dateKey st =
     st\<lparr>habits :=
          map (\<lambda>habit.
                 if habit_id habit \<noteq> habitId' then habit
                 else habit\<lparr>completions := toggleCompletions dateKey (completions habit)\<rparr>)
              (habits st)\<rparr>"

definition handleAddHabit :: "jsstring \<Rightarrow> nat \<Rightarrow> jsstring \<Rightarrow> Home \<Rightarrow> Home" where
  \<comment> \<open>the arguments are \<open>crypto.randomUUID()\<close>, \<open>Math.floor(Math.random() *
      GRADIENTS.length)\<close> and \<open>new Date().toISOString()\<close>; the default emoji is the
      characters of the source file\<close>
  "handleAddHabit randomUUID randomIndex nowISO st =
     (if trim (name_state st) = [] then st
      else
        (let color' = (if randomIndex < length GRADIENTS then GRADIENTS ! randomIndex
                       else utf16 ''from-sky-500 to-cyan-400'');
             habit =
               \<lparr>habit_id = randomUUID,
                name = trim (name_state st),
                emoji = (if trim (emoji_state st) \<noteq> [] then trim (emoji_state st)
                         else [0xE2, 0x153, 0xA8]),
                color = color',
                goalPerWeek = (if goalPerWeek_state st < 1 then 1 else goalPerWeek_state st),
                reminders = (if reminderTime st \<noteq> [] then [reminderTime st] else []),
                completions = [],
                createdAt = nowISO\<rparr>
         in st\<lparr>habits := habit # habits st,
               selectedHabitId := Some (habit_id habit),
               name_state := [],
               goalPerWeek_state := 5,
               reminderTime := []\<rparr>))"

definition handleAddReminder :: "jsstring \<Rightarrow> jsstring \<Rightarrow> Home \<Rightarrow> Home" where
  "handleAddReminder habitId' reminder st =
     (if reminder = [] then st
      else
        st\<lparr>habits :=
             map (\<lambda>habit.
                    if habit_id habit \<noteq> habitId' then habit
                    else habit\<lparr>reminders := sort (newSet (reminders habit @ [reminder]))\<rparr>)
                 (habits st)\<rparr>)"

definition handleRemoveReminder :: "jsstring \<Rightarrow> jsstring \<Rightarrow> Home \<Rightarrow> Home" where
  "handleRemoveReminder habitId' reminder st =
     st\<lparr>habits :=
          map (\<lambda>habit.
                 if habit_id habit \<noteq> habitId' then habit
                 else habit\<lparr>reminders := filter (\<lambda>rem. rem \<noteq> reminder) (reminders habit)\<rparr>)
              (habits st)\<rparr>"

definition handleDeleteHabit :: "jsstring \<Rightarrow> Home \<Rightarrow> Home" where
  "handleDeleteHabit habitId' st =
     st\<lparr>habits := filter (\<lambda>habit. habit_id habit \<noteq> habitId') (habits st),
        selectedHabitId :=
          (if selectedHabitId st = Some habitId' then None else selectedHabitId st)\<rparr>"


section \<open>Notions of the specification\<close>

text \<open>
  The store invariant of the data model: in every habit the reminders and the completions
  are sorted and free of duplicates.
\<close>

definition storeInvariant :: "Home \<Rightarrow> bool" where
  "storeInvariant st \<longleftrightarrow>
     (\<forall>habit \<in> set (habits st).
        sorted (reminders habit) \<and> distinct (reminders habit)
        \<and> sorted (completions habit) \<and> distinct (completions habit))"

text \<open>
  The order of the calendar: one date lies before another.
\<close>

definition dateBefore :: "'a civil_scheme \<Rightarrow> 'b civil_scheme \<Rightarrow> bool" where
  "dateBefore a b \<longleftrightarrow>
     getFullYear a < getFullYear b
     \<or> (getFullYear a = getFullYear b
         \<and> (getMonth a < getMonth b \<or> (getMonth a = getMonth b \<and> getDate a < getDate b)))"

text \<open>
  The days before a reading on which the zone did not skip its time of day: on each of the
  \<open>n\<close> days before, in the calendar, the same local time exists.
\<close>

definition unskipped :: "browser \<Rightarrow> clock \<Rightarrow> nat \<Rightarrow> bool" where
  "unskipped z now n \<longleftrightarrow>
     (\<forall>i < n. resolve z ((previousDay ^^ Suc i) now) = (previousDay ^^ Suc i) now)"

text \<open>
  A browser whose zone skips no local time and in which local time is never behind UTC.
\<close>

definition notBehindUTC :: "browser \<Rightarrow> bool" where
  "notBehindUTC z \<longleftrightarrow> (\<forall>reading. resolve z reading = reading) \<and> (\<forall>d. 0 \<le> utcOffset z d)"

text \<open>
  The frame of an operation aimed at one habit: the collection keeps its length, every
  position keeps its identifier, and a habit with another identifier is left as it was.
\<close>

definition frameOf :: "jsstring \<Rightarrow> Habit list \<Rightarrow> Habit list \<Rightarrow> bool" where
  "frameOf habitId' before after \<longleftrightarrow>
     length after = length before
     \<and> (\<forall>i < length before.
           habit_id (after ! i) = habit_id (before ! i)
           \<and> (habit_id (before ! i) \<noteq> habitId' \<longrightarrow> after ! i = before ! i))"

text \<open>
  A valid reminder time in the words of the data model, the \<open>HH:MM\<close> 24-hour form: two
  digits, a colon and two digits, the hour from 00 to 23 and the minute from 00 to 59.
\<close>

definition hourOf :: "jsstring \<Rightarrow> nat" where
  "hourOf reminder = decimalValue 0 (take 2 reminder)"

definition minuteOf :: "jsstring \<Rightarrow> nat" where
  "minuteOf reminder = decimalValue 0 (drop 3 reminder)"

definition validHHMM :: "jsstring \<Rightarrow> bool" where
  "validHHMM reminder \<longleftrightarrow>
     length reminder = 5 \<and> reminder ! 2 = of_char CHR '':''
     \<and> list_all isDigit (take 2 reminder @ drop 3 reminder)
     \<and> hourOf reminder \<le> 23 \<and> minuteOf reminder \<le> 59"

text \<open>
  What the evaluator makes of an entry: the text before the first colon and the text
  between the first colon and the second are converted by \<open>Number\<close>. An entry converts to
  a time when both are there and convert to numbers, the hour from 0 to 23 and the minute
  from 0 to 59. A code unit is numeric when it is white space or occurs in some numeric
  literal.
\<close>

definition convertsToTime :: "jsstring \<Rightarrow> bool" where
  "convertsToTime reminder \<longleftrightarrow>
     (case map Number (split (of_char CHR '':'') reminder) of
        hour # minute # _ \<Rightarrow>
          hour \<noteq> NaN \<and> minute \<noteq> NaN
          \<and> \<not> js_less hour (Finite 0) \<and> \<not> js_greater hour (Finite 23)
          \<and> \<not> js_less minute (Finite 0) \<and> \<not> js_greater minute (Finite 59)
      | _ \<Rightarrow> False)"

definition numericCodeUnit :: "nat \<Rightarrow> bool" where
  "numericCodeUnit c \<longleftrightarrow>
     isDigit c \<or> isWhiteSpace c \<or> c \<in> set (utf16 ''abcdefABCDEFxXoO+-.Infinity'')"

definition withoutSkippedReminders :: "Habit list \<Rightarrow> Habit list" where
  "withoutSkippedReminders hs =
     map (\<lambda>habit. habit\<lparr>reminders := filter convertsToTime (reminders habit)\<rparr>) hs"

definition secondsOfDay :: "'a clock_scheme \<Rightarrow> nat" where
  "secondsOfDay now = getHours now * 3600 + getMinutes now * 60 + getSeconds now"

definition clockAt :: "'a civil_scheme \<Rightarrow> nat \<Rightarrow> nat \<Rightarrow> nat \<Rightarrow> clock" where
  \<comment> \<open>the reading with the given local day and local time of day\<close>
  "clockAt d h m s =
     \<lparr>getFullYear = getFullYear d, getMonth = getMonth d, getDate = getDate d,
      getHours = h, getMinutes = m, getSeconds = s\<rparr>"

definition dateAt :: "'a civil_scheme \<Rightarrow> nat \<Rightarrow> nat \<Rightarrow> nat \<Rightarrow> int \<Rightarrow> Date" where
  \<comment> \<open>the \<open>Date\<close> with the given local day, local time of day and time value\<close>
  "dateAt d h m s t =
     \<lparr>getFullYear = getFullYear d, getMonth = getMonth d, getDate = getDate d,
      getHours = h, getMinutes = m, getSeconds = s, getTime = t\<rparr>"

text \<open>
  A valid habit collection in the sense of the persisted schema: an array of objects whose
  members \<open>id\<close>, \<open>name\<close>, \<open>emoji\<close>, \<open>color\<close> and \<open>createdAt\<close> are strings, whose
  \<open>goalPerWeek\<close> is an integer and whose \<open>reminders\<close> and \<open>completions\<close> are arrays of
  strings.
\<close>

fun isJString :: "json \<Rightarrow> bool" where
  "isJString (JString s) = True"
| "isJString j = False"

fun isJInteger :: "json \<Rightarrow> bool" where
  "isJInteger (JNumber r) = (r = of_int \<lfloor>r\<rfloor>)"
| "isJInteger j = False"

fun isJStringArray :: "json \<Rightarrow> bool" where
  "isJStringArray (JArray js) = list_all isJString js"
| "isJStringArray j = False"

definition hasMember :: "(json \<Rightarrow> bool) \<Rightarrow> jsstring \<Rightarrow> (jsstring \<times> json) list \<Rightarrow> bool" where
  "hasMember P k members = (case map_of (rev members) k of None \<Rightarrow> False | Some v \<Rightarrow> P v)"

fun isHabit :: "json \<Rightarrow> bool" where
  "isHabit (JObject members) =
     (hasMember isJString (utf16 ''id'') members \<and> hasMember isJString (utf16 ''name'') members
      \<and> hasMember isJString (utf16 ''emoji'') members
      \<and> hasMember isJString (utf16 ''color'') members
      \<and> hasMember isJInteger (utf16 ''goalPerWeek'') members
      \<and> hasMember isJStringArray (utf16 ''reminders'') members
      \<and> hasMember isJStringArray (utf16 ''completions'') members
      \<and> hasMember isJString (utf16 ''createdAt'') members)"
| "isHabit j = False"

fun isHabitCollection :: "json \<Rightarrow> bool" where
  "isHabitCollection (JArray js) = list_all isHabit js"
| "isHabitCollection j = False"

text \<open>
  \<open>JSON.parse\<close> on a handful of texts, for running the loader on concrete storage: the
  literal names and the empty containers. Its \<open>SyntaxError\<close> is that of \<open>JSON.parse\<close> on
  texts that are not JSON, such as a lone opening brace; it does not read other JSON
  texts.
\<close>

definition JSON_parse_literals :: "jsstring \<Rightarrow> error + json" where
  "JSON_parse_literals s =
     (if s = utf16 ''null'' then Inr JNull
      else if s = utf16 ''true'' then Inr (JBoolean True)
      else if s = utf16 ''false'' then Inr (JBoolean False)
      else if s = utf16 ''[]'' then Inr (JArray [])
      else if s = utf16 ''{}'' then Inr (JObject [])
      else Inl SyntaxError)"

section \<open>Example data\<close>

text \<open>
  Two browsers, both reading no text but the date-only form as a date. A zone with a fixed
  offset skips no local time. Pacific/Apia, as it was from 24 September 2011 to 1 April
  2012, went from 10 hours behind UTC to 14 hours ahead at the end of 29 December 2011:
  30 December did not take place there, and a reading asked for on that day is the same
  time of day on 31 December.
\<close>

definition fixedZone :: "int \<Rightarrow> browser" where
  "fixedZone minutes =
     \<lparr>resolve = (\<lambda>reading. reading), utcOffset = (\<lambda>d. minutes), parseOther = (\<lambda>s. None)\<rparr>"

definition apia :: browser where
  "apia =
     \<lparr>resolve =
        (\<lambda>reading.
           if getFullYear reading = 2011 \<and> getMonth reading = 11 \<and> getDate reading = 30
           then reading\<lparr>getDate := 31\<rparr> else reading),
      utcOffset =
        (\<lambda>d. if dateBefore d \<lparr>getFullYear = 2011, getMonth = 11, getDate = 31\<rparr>
              then - 600 else 840),
      parseOther = (\<lambda>s. None)\<rparr>"

definition exampleHabit :: "jsstring list \<Rightarrow> jsstring list \<Rightarrow> Habit" where
  "exampleHabit rs cs =
     \<lparr>habit_id = utf16 ''habit-1'', name = utf16 ''Morning Run'', emoji = utf16 ''*'',
      color = utf16 ''from-violet-500 to-fuchsia-500'', goalPerWeek = 5,
      reminders = rs, completions = cs, createdAt = utf16 ''2024-03-01T08:00:00.000Z''\<rparr>"

definition exampleHabit2 :: Habit where
  "exampleHabit2 =
     \<lparr>habit_id = utf16 ''habit-2'', name = utf16 ''Mindful Break'', emoji = utf16 ''+'',
      color = utf16 ''from-emerald-500 to-teal-400'', goalPerWeek = 7,
      reminders = [utf16 ''12:00'', utf16 ''20:00''], completions = [],
      createdAt = utf16 ''2024-03-01T08:00:00.000Z''\<rparr>"

definition exampleHome :: "Habit list \<Rightarrow> Home" where
  "exampleHome hs =
     \<lparr>habits = hs, selectedHabitId = None, name_state = [], emoji_state = utf16 ''*'',
      goalPerWeek_state = 5, reminderTime = [], alerts = [],
      reminderCacheRef = \<lparr>date = utf16 ''2024-03-01'', keys = []\<rparr>\<rparr>"

section \<open>Calendar lemmas\<close>

subsection \<open>Digits and date keys\<close>

lemma padStart_2: "padStart 2 n = [digitChar (n div 10), digitChar n]"
proof -
  have "(2::nat) = Suc (Suc 0)" by simp
  then show ?thesis by (simp only: padStart.simps) simp
qed

lemma padStart_4:
  "padStart 4 n =
     [digitChar (n div 1000), digitChar (n div 100), digitChar (n div 10), digitChar n]"
proof -
  have "(4::nat) = Suc (Suc (Suc (Suc 0)))" by simp
  then show ?thesis by (simp only: padStart.simps) (simp add: div_mult2_eq[symmetric])
qed

lemma digit_cases:
  "k < 10 \<Longrightarrow> k = 0 \<or> k = 1 \<or> k = 2 \<or> k = 3 \<or> k = 4 \<or> k = 5 \<or> k = 6 \<or> k = 7 \<or> k = 8 \<or> k = (9::nat)"
  by arith

lemma digitValue_digitChar: "digitValue (digitChar n) = n mod 10"
proof -
  have "n mod 10 < 10" by simp
  from digit_cases[OF this] show ?thesis
    unfolding digitChar_def digitValue_def by (elim disjE) simp_all
qed

lemma isDigit_digitChar: "isDigit (digitChar n)"
proof -
  have "n mod 10 < 10" by simp
  from digit_cases[OF this] show ?thesis
    unfolding digitChar_def isDigit_def by (elim disjE) simp_all
qed

lemma length_padStart: "length (padStart w n) = w"
  by (induction w arbitrary: n) simp_all

lemma isDigit_padStart: "list_all isDigit (padStart w n)"
  by (induction w arbitrary: n) (simp_all add: isDigit_digitChar)

lemma decimalValue_append: "decimalValue acc (xs @ ys) = decimalValue (decimalValue acc xs) ys"
  by (induction xs arbitrary: acc) simp_all

lemma decimalValue_padStart: "decimalValue acc (padStart w n) = acc * 10 ^ w + n mod 10 ^ w"
proof (induction w arbitrary: n)
  case 0
  show ?case by simp
next
  case (Suc w)
  have "n mod (10 * 10 ^ w) = 10 * (n div 10 mod 10 ^ w) + n mod 10"
    by (rule mod_mult2_eq)
  then show ?case
    by (simp add: decimalValue_append Suc.IH digitValue_digitChar algebra_simps)
qed

lemma daysInMonth_le: "daysInMonth y m \<le> 31"
  by (simp add: daysInMonth_def)

lemma daysInMonth_ge: "28 \<le> daysInMonth y m"
  by (simp add: daysInMonth_def)

lemma daysInMonth_11: "daysInMonth y 11 = 31"
  by (simp add: daysInMonth_def)

lemma getDateKey_plain:
  assumes "plainDate d"
  shows "getDateKey d =
    padStart 4 (nat (getFullYear d)) @ utf16 ''-'' @ padStart 2 (getMonth d + 1) @ utf16 ''-''
      @ padStart 2 (getDate d)"
  using assms
  by (simp add: plainDate_def validDate_def getDateKey_def Date_UTC_def toISOString_def
      padStart_2 padStart_4 Let_def utf16_def)

lemma parseDateOnly_parts:
  assumes "length ys = 4" "length ms = 2" "length ds = 2"
    and "list_all isDigit ys" "list_all isDigit ms" "list_all isDigit ds"
  shows "parseDateOnly (ys @ utf16 ''-'' @ ms @ utf16 ''-'' @ ds) =
     (if 1 \<le> decimalValue 0 ms \<and> decimalValue 0 ms \<le> 12 \<and> 1 \<le> decimalValue 0 ds
         \<and> decimalValue 0 ds \<le> 31
      then Some (if daysInMonth (int (decimalValue 0 ys)) (decimalValue 0 ms - 1)
                      < decimalValue 0 ds
                 then \<lparr>getFullYear = int (decimalValue 0 ys), getMonth = decimalValue 0 ms,
                       getDate = decimalValue 0 ds
                         - daysInMonth (int (decimalValue 0 ys)) (decimalValue 0 ms - 1)\<rparr>
                 else \<lparr>getFullYear = int (decimalValue 0 ys), getMonth = decimalValue 0 ms - 1,
                       getDate = decimalValue 0 ds\<rparr>)
      else None)"
  using assms by (simp add: parseDateOnly_def nth_append Let_def utf16_def)

lemma parseDateOnly_getDateKey:
  assumes "plainDate d"
  shows "parseDateOnly (getDateKey d) = Some (civil.truncate d)"
proof -
  from assms have y: "nat (getFullYear d) < 10 ^ 4" and m: "getMonth d + 1 < 10 ^ 2"
    and dd: "getDate d < 10 ^ 2"
    and v: "getMonth d < 12" "1 \<le> getDate d"
      "getDate d \<le> daysInMonth (getFullYear d) (getMonth d)"
    and y0: "0 \<le> getFullYear d"
    using daysInMonth_le[of "getFullYear d" "getMonth d"]
    by (auto simp: plainDate_def validDate_def)
  have vals: "decimalValue 0 (padStart 4 (nat (getFullYear d))) = nat (getFullYear d)"
    "decimalValue 0 (padStart 2 (getMonth d + 1)) = getMonth d + 1"
    "decimalValue 0 (padStart 2 (getDate d)) = getDate d"
    using y m dd by (simp_all only: decimalValue_padStart mod_less mult_zero_left add_0)
  show ?thesis
    unfolding getDateKey_plain[OF assms]
    by (subst parseDateOnly_parts)
       (use v y0 daysInMonth_le[of "getFullYear d" "getMonth d"] in
          \<open>simp_all only: length_padStart isDigit_padStart vals\<close>,
        simp add: civil.truncate_def)
qed

subsection \<open>The day before\<close>

lemma validDate_previousDay: "validDate d \<Longrightarrow> validDate (previousDay d)"
  using daysInMonth_ge[of "getFullYear d" "getMonth d - 1"]
  by (auto simp: validDate_def previousDay_def daysInMonth_11)

lemma getFullYear_previousDay: "getFullYear (previousDay d) \<le> getFullYear d"
  by (simp add: previousDay_def)

lemma div_step:
  fixes y k :: int
  assumes "0 < k"
  shows "y div k = (y - 1) div k + (if y mod k = 0 then 1 else 0)"
proof (cases "y mod k = 0")
  case True
  have "k * (y div k) = y" using True by (simp add: mod_eq_0_iff_dvd)
  then have "y - 1 = k * (y div k - 1) + (k - 1)" by (simp add: algebra_simps)
  then have "(y - 1) div k = y div k - 1"
    using assms by (intro int_div_pos_eq[where r = "k - 1"]) auto
  then show ?thesis using True by simp
next
  case False
  have "0 \<le> y mod k" "y mod k < k" using assms by simp_all
  with False have r: "0 < y mod k" "y mod k < k" by simp_all
  have "y - 1 = k * (y div k) + (y mod k - 1)" by simp
  then have "(y - 1) div k = y div k"
    using r by (intro int_div_pos_eq[where r = "y mod k - 1"]) auto
  then show ?thesis using False by simp
qed

lemma mod_100_4: "(y::int) mod 100 = 0 \<Longrightarrow> y mod 4 = 0"
proof -
  assume "y mod 100 = 0"
  then have "100 dvd y" by (simp add: mod_eq_0_iff_dvd)
  moreover have "(4::int) dvd 100" by simp
  ultimately have "4 dvd y" by (rule dvd_trans[rotated])
  then show ?thesis by (simp add: mod_eq_0_iff_dvd)
qed

lemma mod_400_100: "(y::int) mod 400 = 0 \<Longrightarrow> y mod 100 = 0"
proof -
  assume "y mod 400 = 0"
  then have "400 dvd y" by (simp add: mod_eq_0_iff_dvd)
  moreover have "(100::int) dvd 400" by simp
  ultimately have "100 dvd y" by (rule dvd_trans[rotated])
  then show ?thesis by (simp add: mod_eq_0_iff_dvd)
qed

lemma leap_count:
  fixes a b c y :: int and p4 p100 p400 :: bool
  assumes "p100 \<Longrightarrow> p4" "p400 \<Longrightarrow> p100"
  shows "365 * (y + 1) + (a + (if p4 then 1 else 0)) - (b + (if p100 then 1 else 0))
           + (c + (if p400 then 1 else 0))
         = 365 * y + a - b + c + (if p4 \<and> (\<not> p100 \<or> p400) then 366 else 365)"
  using assms by (cases p4; cases p100; cases p400) simp_all

lemma daysBeforeYear_Suc:
  "daysBeforeYear (y + 1) = daysBeforeYear y + (if isLeapYear y then 366 else 365)"
proof -
  have e: "y div 4 = (y - 1) div 4 + (if y mod 4 = 0 then 1 else 0)"
    "y div 100 = (y - 1) div 100 + (if y mod 100 = 0 then 1 else 0)"
    "y div 400 = (y - 1) div 400 + (if y mod 400 = 0 then 1 else 0)"
    by (rule div_step, simp)+
  have "daysBeforeYear (y + 1) = 365 * (y + 1) + y div 4 - y div 100 + y div 400"
    by (simp only: daysBeforeYear_def add_diff_cancel_right')
  also have "\<dots> = 365 * (y + 1) + ((y - 1) div 4 + (if y mod 4 = 0 then 1 else 0))
      - ((y - 1) div 100 + (if y mod 100 = 0 then 1 else 0))
      + ((y - 1) div 400 + (if y mod 400 = 0 then 1 else 0))"
    by (simp only: e[symmetric])
  also have "\<dots> = 365 * y + (y - 1) div 4 - (y - 1) div 100 + (y - 1) div 400
      + (if y mod 4 = 0 \<and> (\<not> y mod 100 = 0 \<or> y mod 400 = 0) then 366 else 365)"
    by (rule leap_count) (erule mod_100_4, erule mod_400_100)
  finally show ?thesis
    by (simp only: daysBeforeYear_def isLeapYear_def)
qed

lemma daysBeforeMonth_Suc:
  "daysBeforeMonth y (Suc m) = daysBeforeMonth y m + int (daysInMonth y m)"
  by (simp add: daysBeforeMonth_def)

lemma daysBeforeMonth_0: "daysBeforeMonth y 0 = 0"
  by (simp add: daysBeforeMonth_def)

lemma daysBeforeMonth_11: "daysBeforeMonth y 11 = (if isLeapYear y then 335 else 334)"
proof -
  have "(11::nat) = Suc (Suc (Suc (Suc (Suc (Suc (Suc (Suc (Suc (Suc (Suc 0))))))))))" by simp
  then show ?thesis
    by (simp only: daysBeforeMonth_Suc daysBeforeMonth_0) (simp add: daysInMonth_def)
qed

lemma dayNumber_previousDay:
  assumes "validDate d"
  shows "dayNumber (previousDay d) = dayNumber d - 1"
proof -
  consider (day) "1 < getDate d" | (month) "getDate d = 1" "0 < getMonth d"
    | (year) "getDate d = 1" "getMonth d = 0"
    using assms unfolding validDate_def by linarith
  then show ?thesis
  proof cases
    case day
    then show ?thesis by (simp add: dayNumber_def previousDay_def)
  next
    case month
    then obtain m where m: "getMonth d = Suc m" by (cases "getMonth d") auto
    with month show ?thesis
      by (simp add: dayNumber_def previousDay_def daysBeforeMonth_Suc)
  next
    case year
    have "daysBeforeYear (getFullYear d) =
        daysBeforeYear (getFullYear d - 1) + (if isLeapYear (getFullYear d - 1) then 366 else 365)"
      using daysBeforeYear_Suc[of "getFullYear d - 1"] by simp
    with year show ?thesis
      by (simp add: dayNumber_def previousDay_def daysBeforeMonth_11 daysBeforeMonth_0)
  qed
qed

lemma validDate_funpow: "validDate d \<Longrightarrow> validDate ((previousDay ^^ k) d)"
  by (induction k) (simp_all add: validDate_previousDay)

lemma dayNumber_funpow:
  "validDate d \<Longrightarrow> dayNumber ((previousDay ^^ k) d) = dayNumber d - int k"
  by (induction k) (simp_all add: dayNumber_previousDay validDate_funpow)

lemma getFullYear_funpow_mono:
  "j \<le> k \<Longrightarrow> getFullYear ((previousDay ^^ k) d) \<le> getFullYear ((previousDay ^^ j) d)"
proof (induction k)
  case 0
  then show ?case by simp
next
  case (Suc k)
  show ?case
  proof (cases "j = Suc k")
    case True
    then show ?thesis by simp
  next
    case False
    with Suc.prems have "j \<le> k" by simp
    from Suc.IH[OF this] getFullYear_previousDay[of "(previousDay ^^ k) d"]
    show ?thesis by simp
  qed
qed

lemma plainDate_funpow:
  assumes "plainDate d" "plainDate ((previousDay ^^ k) d)" "j \<le> k"
  shows "plainDate ((previousDay ^^ j) d)"
proof -
  have "getFullYear ((previousDay ^^ k) d) \<le> getFullYear ((previousDay ^^ j) d)"
    using assms(3) by (rule getFullYear_funpow_mono)
  moreover have "getFullYear ((previousDay ^^ j) d) \<le> getFullYear ((previousDay ^^ 0) d)"
    by (rule getFullYear_funpow_mono) simp
  ultimately show ?thesis
    using assms(1,2) by (simp add: plainDate_def validDate_funpow)
qed

lemma civil_truncate_id: "civil.truncate (d :: civil) = d"
  by (cases d) (simp add: civil.truncate_def)

lemma getDateKey_inj:
  assumes "plainDate a" "plainDate b" "getDateKey a = getDateKey b"
  shows "civil.truncate a = civil.truncate b"
proof -
  have "parseDateOnly (getDateKey a) = parseDateOnly (getDateKey b)"
    by (simp only: assms(3))
  then show ?thesis
    by (simp only: parseDateOnly_getDateKey[OF assms(1)] parseDateOnly_getDateKey[OF assms(2)]
        option.inject)
qed

lemma dayNumber_truncate: "dayNumber (civil.truncate d) = dayNumber d"
  by (simp add: dayNumber_def civil.truncate_def)

lemma getDateKey_inj_dayNumber:
  assumes "plainDate a" "plainDate b" "getDateKey a = getDateKey b"
  shows "dayNumber a = dayNumber b"
  using arg_cong[OF getDateKey_inj[OF assms], of dayNumber] by (simp only: dayNumber_truncate)

lemma getDateKey_funpow_inj:
  assumes "plainDate d" "plainDate ((previousDay ^^ k) d)" "i \<le> k" "j \<le> k"
    and "getDateKey ((previousDay ^^ i) d) = getDateKey ((previousDay ^^ j) d)"
  shows "i = j"
proof -
  have pi: "plainDate ((previousDay ^^ i) d)" and pj: "plainDate ((previousDay ^^ j) d)"
    by (rule plainDate_funpow[OF assms(1,2)], rule assms)+
  have "dayNumber ((previousDay ^^ i) d) = dayNumber ((previousDay ^^ j) d)"
    by (rule getDateKey_inj_dayNumber[OF pi pj assms(5)])
  moreover have "validDate d" using assms(1) by (simp add: plainDate_def)
  ultimately show ?thesis by (simp add: dayNumber_funpow)
qed

subsection \<open>Stepping a cursor back\<close>

lemma decrementDate_funpow:
  "unskipped z now n \<Longrightarrow> k \<le> n \<Longrightarrow> (decrementDate z ^^ k) now = (previousDay ^^ k) now"
proof (induction k)
  case 0
  show ?case by simp
next
  case (Suc k)
  then have k: "(decrementDate z ^^ k) now = (previousDay ^^ k) now" by simp
  have r: "resolve z ((previousDay ^^ Suc k) now) = (previousDay ^^ Suc k) now"
    using Suc.prems by (simp add: unskipped_def)
  have "(decrementDate z ^^ Suc k) now = decrementDate z ((previousDay ^^ k) now)"
    by (simp add: k)
  also have "\<dots> = resolve z ((previousDay ^^ Suc k) now)"
    by (simp add: decrementDate_def)
  finally show ?case by (simp only: r)
qed

lemma unskipped_fixedZone: "unskipped (fixedZone minutes) now n"
  by (simp add: unskipped_def fixedZone_def)

lemma rev_upt_Suc0: "rev [0..<Suc n] = map Suc (rev [0..<n]) @ [0]"
  by (simp only: upt_conv_Cons[OF zero_less_Suc] rev.simps map_Suc_upt[symmetric] rev_map)

lemma funpow_keys_step:
  "map (\<lambda>k. f ((g ^^ k) (g c))) (rev [0..<n]) @ [f c] = map (\<lambda>k. f ((g ^^ k) c)) (rev [0..<Suc n])"
  by (simp only: rev_upt_Suc0) (simp add: funpow_swap1 comp_def)

lemma getLastSevenDays_loop_eq:
  "i \<le> 7 \<Longrightarrow> getLastSevenDays_loop z i days cursor =
     map (\<lambda>k. getDateKey ((decrementDate z ^^ k) cursor)) (rev [0 ..< 7 - i]) @ days"
proof (induction z i days cursor rule: getLastSevenDays_loop.induct)
  case (1 z i days cursor)
  show ?case
  proof (cases "i < 7")
    case True
    then have s: "7 - i = Suc (7 - (i + 1))" by simp
    have "getLastSevenDays_loop z i days cursor =
        getLastSevenDays_loop z (i + 1) (getDateKey cursor # days) (decrementDate z cursor)"
      using True by (subst getLastSevenDays_loop.simps) simp
    also have "\<dots> = map (\<lambda>k. getDateKey ((decrementDate z ^^ k) (decrementDate z cursor)))
        (rev [0 ..< 7 - (i + 1)]) @ getDateKey cursor # days"
      using True by (intro "1.IH") simp_all
    also have "\<dots> = map (\<lambda>k. getDateKey ((decrementDate z ^^ k) cursor)) (rev [0 ..< 7 - i]) @ days"
      unfolding s using funpow_keys_step[of getDateKey "decrementDate z" cursor "7 - (i + 1)"]
      by simp
    finally show ?thesis .
  next
    case False
    with "1.prems" have "i = 7" by simp
    then show ?thesis by (subst getLastSevenDays_loop.simps) simp
  qed
qed

section \<open>Sets as insertion-ordered lists\<close>

lemma set_fold_Set_add: "set (fold Set_add xs acc) = set acc \<union> set xs"
  by (induction xs arbitrary: acc) (auto simp: Set_add_def)

lemma distinct_fold_Set_add: "distinct acc \<Longrightarrow> distinct (fold Set_add xs acc)"
  by (induction xs arbitrary: acc) (auto simp: Set_add_def)

lemma fold_Set_add_distinct: "distinct (acc @ xs) \<Longrightarrow> fold Set_add xs acc = acc @ xs"
  by (induction xs arbitrary: acc) (auto simp: Set_add_def)

lemma set_newSet: "set (newSet xs) = set xs"
  by (simp add: newSet_def set_fold_Set_add)

lemma distinct_newSet: "distinct (newSet xs)"
  by (simp add: newSet_def distinct_fold_Set_add)

lemma newSet_distinct: "distinct xs \<Longrightarrow> newSet xs = xs"
  using fold_Set_add_distinct[of "[]" xs] by (simp add: newSet_def)


subsection \<open>Evaluation on the example dates\<close>

lemmas getDateKey_eval =
  getDateKey_def toISOString_def Date_UTC_def daysInMonth_def isLeapYear_def digitChar_def
  padStart_2 padStart_4 Let_def

lemma getDateKey_clockAt [simp]: "getDateKey (clockAt d h m s) = getDateKey d"
  by (simp add: getDateKey_def clockAt_def)

lemma getDateKey_dateAt [simp]: "getDateKey (dateAt d h m s t) = getDateKey d"
  by (simp add: getDateKey_def dateAt_def)

lemma previousDay_clockAt [simp]:
  "previousDay (clockAt d h m s) = clockAt (previousDay d) h m s"
  by (simp add: previousDay_def clockAt_def)

lemma previousDay_funpow_clockAt [simp]:
  "(previousDay ^^ k) (clockAt d h m s) = clockAt ((previousDay ^^ k) d) h m s"
  by (induction k) simp_all

lemma plainDate_clockAt [simp]: "plainDate (clockAt d h m s) = plainDate d"
  by (simp add: plainDate_def validDate_def clockAt_def)

lemma dayNumber_clockAt [simp]: "dayNumber (clockAt d h m s) = dayNumber d"
  by (simp add: dayNumber_def clockAt_def)

lemma decrementDate_fixedZone [simp]: "decrementDate (fixedZone minutes) = previousDay"
  by (rule ext) (simp add: decrementDate_def fixedZone_def)

lemma funpow_one: "((f :: 'a \<Rightarrow> 'a) ^^ 1) x = f x"
  by simp

lemma funpow_2: "(f ^^ 2) x = f (f x)"
  by (simp add: numeral_2_eq_2)

lemma lessThan_2: "{..<(2::nat)} = {0, 1}"
  by (simp add: numeral_2_eq_2 lessThan_Suc insert_commute)

lemma previousDay_march_10:
  "previousDay \<lparr>getFullYear = 2024, getMonth = 2, getDate = 10\<rparr>
     = \<lparr>getFullYear = 2024, getMonth = 2, getDate = 9\<rparr>"
  by (simp add: previousDay_def)

lemma previousDay_march_9:
  "previousDay \<lparr>getFullYear = 2024, getMonth = 2, getDate = 9\<rparr>
     = \<lparr>getFullYear = 2024, getMonth = 2, getDate = 8\<rparr>"
  by (simp add: previousDay_def)

lemma plainDate_march:
  "plainDate \<lparr>getFullYear = 2024, getMonth = 2, getDate = 8\<rparr>"
  "plainDate \<lparr>getFullYear = 2024, getMonth = 2, getDate = 9\<rparr>"
  "plainDate \<lparr>getFullYear = 2024, getMonth = 2, getDate = 10\<rparr>"
  "plainDate \<lparr>getFullYear = 2024, getMonth = 2, getDate = 11\<rparr>"
  by (simp_all add: plainDate_def validDate_def daysInMonth_def)

lemma getDateKey_march:
  "getDateKey \<lparr>getFullYear = 2024, getMonth = 2, getDate = 8\<rparr> = utf16 ''2024-03-08''"
  "getDateKey \<lparr>getFullYear = 2024, getMonth = 2, getDate = 9\<rparr> = utf16 ''2024-03-09''"
  "getDateKey \<lparr>getFullYear = 2024, getMonth = 2, getDate = 10\<rparr> = utf16 ''2024-03-10''"
  "getDateKey \<lparr>getFullYear = 2024, getMonth = 2, getDate = 11\<rparr> = utf16 ''2024-03-11''"
  by (simp_all add: getDateKey_eval utf16_def)

section \<open>The last seven days\<close>

lemma getLastSevenDays_eq:
  "getLastSevenDays z now = map (\<lambda>k. getDateKey ((decrementDate z ^^ k) now)) (rev [0 ..< 7])"
  using getLastSevenDays_loop_eq[of 0 z "[]" now]
  by (simp only: getLastSevenDays_def le0 diff_zero append_Nil2)

lemma getLastSevenDays_unskipped:
  assumes "unskipped z now 6"
  shows "getLastSevenDays z now = map (\<lambda>k. getDateKey ((previousDay ^^ k) now)) (rev [0 ..< 7])"
proof -
  have "map (\<lambda>k. getDateKey ((decrementDate z ^^ k) now)) (rev [0 ..< 7])
      = map (\<lambda>k. getDateKey ((previousDay ^^ k) now)) (rev [0 ..< 7])"
  proof (rule map_cong[OF refl])
    fix k :: nat
    assume "k \<in> set (rev [0 ..< 7])"
    then have "k \<le> 6" by (simp del: upt_Suc)
    with assms show "getDateKey ((decrementDate z ^^ k) now) = getDateKey ((previousDay ^^ k) now)"
      by (simp only: decrementDate_funpow)
  qed
  then show ?thesis by (simp only: getLastSevenDays_eq)
qed

lemma getLastSevenDays_nth:
  assumes "unskipped z now 6" "i < 7"
  shows "getLastSevenDays z now ! i = getDateKey ((previousDay ^^ (6 - i)) now)"
proof -
  have "rev [0 ..< 7] ! i = 6 - i"
    using assms(2) by (simp only: rev_nth length_upt diff_zero) (simp del: upt_Suc)
  then show ?thesis
    using assms(2)
    by (simp only: getLastSevenDays_unskipped[OF assms(1)] nth_map length_rev length_upt
        diff_zero)
qed

lemma funpow_6: "(f ^^ 6) x = f (f (f (f (f (f x)))))"
  by (simp add: numeral_eq_Suc)

lemma previousDay_across_february:
  "previousDay \<lparr>getFullYear = 2024, getMonth = 2, getDate = 3\<rparr>
     = \<lparr>getFullYear = 2024, getMonth = 2, getDate = 2\<rparr>"
  "previousDay \<lparr>getFullYear = 2024, getMonth = 2, getDate = 2\<rparr>
     = \<lparr>getFullYear = 2024, getMonth = 2, getDate = 1\<rparr>"
  "previousDay \<lparr>getFullYear = 2024, getMonth = 2, getDate = 1\<rparr>
     = \<lparr>getFullYear = 2024, getMonth = 1, getDate = 29\<rparr>"
  "previousDay \<lparr>getFullYear = 2024, getMonth = 1, getDate = 29\<rparr>
     = \<lparr>getFullYear = 2024, getMonth = 1, getDate = 28\<rparr>"
  "previousDay \<lparr>getFullYear = 2024, getMonth = 1, getDate = 28\<rparr>
     = \<lparr>getFullYear = 2024, getMonth = 1, getDate = 27\<rparr>"
  "previousDay \<lparr>getFullYear = 2024, getMonth = 1, getDate = 27\<rparr>
     = \<lparr>getFullYear = 2024, getMonth = 1, getDate = 26\<rparr>"
  by (simp_all add: previousDay_def daysInMonth_def isLeapYear_def)

lemma getDateKey_across_february:
  "getDateKey \<lparr>getFullYear = 2024, getMonth = 2, getDate = 3\<rparr> = utf16 ''2024-03-03''"
  "getDateKey \<lparr>getFullYear = 2024, getMonth = 2, getDate = 2\<rparr> = utf16 ''2024-03-02''"
  "getDateKey \<lparr>getFullYear = 2024, getMonth = 2, getDate = 1\<rparr> = utf16 ''2024-03-01''"
  "getDateKey \<lparr>getFullYear = 2024, getMonth = 1, getDate = 29\<rparr> = utf16 ''2024-02-29''"
  "getDateKey \<lparr>getFullYear = 2024, getMonth = 1, getDate = 28\<rparr> = utf16 ''2024-02-28''"
  "getDateKey \<lparr>getFullYear = 2024, getMonth = 1, getDate = 27\<rparr> = utf16 ''2024-02-27''"
  "getDateKey \<lparr>getFullYear = 2024, getMonth = 1, getDate = 26\<rparr> = utf16 ''2024-02-26''"
  by (simp_all add: getDateKey_eval utf16_def)

lemma getLastSevenDays_example:
  "getLastSevenDays (fixedZone 60) (clockAt \<lparr>getFullYear = 2024, getMonth = 2, getDate = 3\<rparr> 12 0 0)
     = [utf16 ''2024-02-26'', utf16 ''2024-02-27'', utf16 ''2024-02-28'', utf16 ''2024-02-29'',
        utf16 ''2024-03-01'', utf16 ''2024-03-02'', utf16 ''2024-03-03'']"
  by (simp add: getLastSevenDays_def previousDay_across_february getDateKey_across_february
      del: One_nat_def)

subsection \<open>Around a skipped day\<close>

lemma previousDay_new_year_2012:
  "previousDay \<lparr>getFullYear = 2012, getMonth = 0, getDate = 2\<rparr>
     = \<lparr>getFullYear = 2012, getMonth = 0, getDate = 1\<rparr>"
  "previousDay \<lparr>getFullYear = 2012, getMonth = 0, getDate = 1\<rparr>
     = \<lparr>getFullYear = 2011, getMonth = 11, getDate = 31\<rparr>"
  "previousDay \<lparr>getFullYear = 2011, getMonth = 11, getDate = 31\<rparr>
     = \<lparr>getFullYear = 2011, getMonth = 11, getDate = 30\<rparr>"
  "previousDay \<lparr>getFullYear = 2011, getMonth = 11, getDate = 30\<rparr>
     = \<lparr>getFullYear = 2011, getMonth = 11, getDate = 29\<rparr>"
  "previousDay \<lparr>getFullYear = 2011, getMonth = 11, getDate = 29\<rparr>
     = \<lparr>getFullYear = 2011, getMonth = 11, getDate = 28\<rparr>"
  "previousDay \<lparr>getFullYear = 2011, getMonth = 11, getDate = 28\<rparr>
     = \<lparr>getFullYear = 2011, getMonth = 11, getDate = 27\<rparr>"
  by (simp_all add: previousDay_def)

lemma decrementDate_apia:
  "decrementDate apia (clockAt \<lparr>getFullYear = 2012, getMonth = 0, getDate = 2\<rparr> h m s)
     = clockAt \<lparr>getFullYear = 2012, getMonth = 0, getDate = 1\<rparr> h m s"
  "decrementDate apia (clockAt \<lparr>getFullYear = 2012, getMonth = 0, getDate = 1\<rparr> h m s)
     = clockAt \<lparr>getFullYear = 2011, getMonth = 11, getDate = 31\<rparr> h m s"
  "decrementDate apia (clockAt \<lparr>getFullYear = 2011, getMonth = 11, getDate = 31\<rparr> h m s)
     = clockAt \<lparr>getFullYear = 2011, getMonth = 11, getDate = 31\<rparr> h m s"
  by (simp_all only: decrementDate_def previousDay_clockAt previousDay_new_year_2012)
     (simp_all add: apia_def clockAt_def)

lemma getDateKey_new_year_2012:
  "getDateKey \<lparr>getFullYear = 2012, getMonth = 0, getDate = 2\<rparr> = utf16 ''2012-01-02''"
  "getDateKey \<lparr>getFullYear = 2012, getMonth = 0, getDate = 1\<rparr> = utf16 ''2012-01-01''"
  "getDateKey \<lparr>getFullYear = 2011, getMonth = 11, getDate = 31\<rparr> = utf16 ''2011-12-31''"
  by (simp_all add: getDateKey_eval utf16_def)

lemma plainDate_new_year_2012:
  "plainDate \<lparr>getFullYear = 2012, getMonth = 0, getDate = 2\<rparr>"
  "plainDate \<lparr>getFullYear = 2012, getMonth = 0, getDate = 1\<rparr>"
  "plainDate \<lparr>getFullYear = 2011, getMonth = 11, getDate = 31\<rparr>"
  "plainDate \<lparr>getFullYear = 2011, getMonth = 11, getDate = 30\<rparr>"
  "plainDate \<lparr>getFullYear = 2011, getMonth = 11, getDate = 27\<rparr>"
  by (simp_all add: plainDate_def validDate_def daysInMonth_def)




section \<open>The current streak\<close>

lemma computeStreak_loop_run:
  assumes "\<forall>i<k. getDateKey ((decrementDate z ^^ i) today) \<in> set completionSet"
    and "getDateKey ((decrementDate z ^^ k) today) \<notin> set completionSet"
  shows "computeStreak_loop z completionSet today streak = Some (streak + k)"
  using assms
proof (induction k arbitrary: today streak)
  case 0
  then show ?case by (subst computeStreak_loop.simps) (simp add: Set_has_def)
next
  case (Suc k)
  have here: "getDateKey today \<in> set completionSet"
    using Suc.prems(1)[rule_format, of 0] by simp
  have "\<forall>i<k. getDateKey ((decrementDate z ^^ i) (decrementDate z today)) \<in> set completionSet"
    using Suc.prems(1) by (auto simp: funpow_swap1 dest: spec[of _ "Suc _"])
  moreover have "getDateKey ((decrementDate z ^^ k) (decrementDate z today)) \<notin> set completionSet"
    using Suc.prems(2) by (simp add: funpow_swap1)
  ultimately have "computeStreak_loop z completionSet (decrementDate z today) (streak + 1)
      = Some (streak + 1 + k)"
    by (rule Suc.IH)
  with here show ?case
    by (subst computeStreak_loop.simps) (simp add: Set_has_def)
qed

lemma computeStreak_loop_stuck:
  assumes "getDateKey today \<in> set completionSet" "decrementDate z today = today"
  shows "computeStreak_loop z completionSet today streak = None"
proof (rule ccontr)
  assume "computeStreak_loop z completionSet today streak \<noteq> None"
  then obtain y where y: "computeStreak_loop z completionSet today streak = Some y" by auto
  have "\<not> (z = z \<and> completionSet = completionSet \<and> today = today)"
  proof (rule computeStreak_loop.raw_induct
      [where P = "\<lambda>z' cs' c' n' y'. \<not> (z' = z \<and> cs' = completionSet \<and> c' = today)", OF _ y])
    fix loop :: "browser \<Rightarrow> jsstring list \<Rightarrow> clock \<Rightarrow> nat \<Rightarrow> nat option"
      and z' cs' c' and n' y' :: nat
    assume IH: "\<And>a b c d e. loop a b c d = Some e
        \<Longrightarrow> \<not> (a = z \<and> b = completionSet \<and> c = today)"
      and step: "(if Set_has cs' (getDateKey c') then loop z' cs' (decrementDate z' c') (n' + 1)
          else Some n') = Some y'"
    show "\<not> (z' = z \<and> cs' = completionSet \<and> c' = today)"
    proof
      assume "z' = z \<and> cs' = completionSet \<and> c' = today"
      with step assms have "loop z completionSet today (n' + 1) = Some y'"
        by (simp add: Set_has_def)
      from IH[OF this] show False by simp
    qed
  qed
  then show False by simp
qed




section \<open>The habit store\<close>

subsection \<open>Toggling a completion\<close>

lemma distinct_toggleCompletions: "distinct (toggleCompletions k cs)"
  by (simp add: toggleCompletions_def Let_def Set_has_def Set_delete_def Set_add_def distinct_newSet)

lemma sorted_toggleCompletions: "sorted (toggleCompletions k cs)"
  by (simp add: toggleCompletions_def Let_def)

lemma set_toggleCompletions:
  "set (toggleCompletions k cs) = (if k \<in> set cs then set cs - {k} else insert k (set cs))"
  by (auto simp: toggleCompletions_def Let_def Set_has_def Set_delete_def Set_add_def set_newSet)

lemma toggleCompletions_twice:
  assumes "sorted cs" "distinct cs"
  shows "toggleCompletions k (toggleCompletions k cs) = cs"
proof -
  have "set (toggleCompletions k (toggleCompletions k cs)) = set cs"
    by (auto simp: set_toggleCompletions)
  then show ?thesis
    using assms distinct_toggleCompletions sorted_toggleCompletions
    by (intro sorted_distinct_set_unique)
qed

text \<open>
  Claim C3. On a collection in which every habit's completions are sorted and free of
  duplicates, toggling the same habit and date key twice gives back the state it started
  from: every habit, and so every completion set, is as before.
\<close>

theorem handleToggleCompletion_involution:
  assumes "\<forall>habit \<in> set (habits st). sorted (completions habit) \<and> distinct (completions habit)"
  shows "handleToggleCompletion habitId' dateKey (handleToggleCompletion habitId' dateKey st) = st"
proof -
  let ?f = "\<lambda>habit. if habit_id habit \<noteq> habitId' then habit
      else habit\<lparr>completions := toggleCompletions dateKey (completions habit)\<rparr>"
  have "?f (?f habit) = habit" if "habit \<in> set (habits st)" for habit
    using assms that by (simp add: toggleCompletions_twice)
  then have "map (\<lambda>habit. ?f (?f habit)) (habits st) = map (\<lambda>habit. habit) (habits st)"
    by (intro map_cong) simp_all
  then have "map ?f (map ?f (habits st)) = habits st"
    by (simp only: map_map comp_def map_ident)
  then show ?thesis
    by (simp add: handleToggleCompletion_def)
qed

theorem handleToggleCompletion_involution_witness:
  "sorted (completions (exampleHabit [] [utf16 ''2024-03-09'', utf16 ''2024-03-10'']))
   \<and> distinct (completions (exampleHabit [] [utf16 ''2024-03-09'', utf16 ''2024-03-10'']))
   \<and> habits (handleToggleCompletion (utf16 ''habit-1'') (utf16 ''2024-03-10'')
        (exampleHome [exampleHabit [] [utf16 ''2024-03-09'', utf16 ''2024-03-10'']]))
      = [exampleHabit [] [utf16 ''2024-03-09'']]
   \<and> handleToggleCompletion (utf16 ''habit-1'') (utf16 ''2024-03-10'')
        (handleToggleCompletion (utf16 ''habit-1'') (utf16 ''2024-03-10'')
          (exampleHome [exampleHabit [] [utf16 ''2024-03-09'', utf16 ''2024-03-10'']]))
      = exampleHome [exampleHabit [] [utf16 ''2024-03-09'', utf16 ''2024-03-10'']]"
proof -
  let ?st = "exampleHome [exampleHabit [] [utf16 ''2024-03-09'', utf16 ''2024-03-10'']]"
  have inv: "\<forall>habit \<in> set (habits ?st). sorted (completions habit) \<and> distinct (completions habit)"
    by (simp add: exampleHome_def exampleHabit_def utf16_def)
  have "habits (handleToggleCompletion (utf16 ''habit-1'') (utf16 ''2024-03-10'') ?st)
      = [exampleHabit [] [utf16 ''2024-03-09'']]"
    by (simp add: handleToggleCompletion_def exampleHome_def exampleHabit_def
        toggleCompletions_def Let_def newSet_def Set_add_def Set_has_def Set_delete_def
        utf16_def)
  moreover have "sorted (completions (exampleHabit [] [utf16 ''2024-03-09'', utf16 ''2024-03-10'']))"
    "distinct (completions (exampleHabit [] [utf16 ''2024-03-09'', utf16 ''2024-03-10'']))"
    by (simp_all add: exampleHabit_def utf16_def)
  ultimately show ?thesis
    using handleToggleCompletion_involution[OF inv, of "utf16 ''habit-1''" "utf16 ''2024-03-10''"]
    by blast
qed

subsection \<open>Invariant and frame\<close>

lemma sorted_distinct_addReminder:
  "sorted (sort (newSet (rs @ [r]))) \<and> distinct (sort (newSet (rs @ [r])))"
  by (simp add: distinct_newSet)

lemma sorted_distinct_removeReminder:
  "sorted rs \<Longrightarrow> distinct rs \<Longrightarrow>
     sorted (filter (\<lambda>rem. rem \<noteq> r) rs) \<and> distinct (filter (\<lambda>rem. rem \<noteq> r) rs)"
  by (simp add: sorted_wrt_filter)

text \<open>
  Claim C5. Each of the five store operations, applied to a state that satisfies the store
  invariant, gives a state that satisfies it again.
\<close>

theorem store_operations_preserve_invariant:
  assumes "storeInvariant st"
  shows "storeInvariant (handleToggleCompletion habitId' dateKey st)
    \<and> storeInvariant (handleAddHabit randomUUID randomIndex nowISO st)
    \<and> storeInvariant (handleAddReminder habitId' reminder st)
    \<and> storeInvariant (handleRemoveReminder habitId' reminder st)
    \<and> storeInvariant (handleDeleteHabit habitId' st)"
proof (intro conjI)
  show "storeInvariant (handleToggleCompletion habitId' dateKey st)"
    using assms
    by (auto simp: storeInvariant_def handleToggleCompletion_def sorted_toggleCompletions
        distinct_toggleCompletions)
  show "storeInvariant (handleAddHabit randomUUID randomIndex nowISO st)"
    using assms by (auto simp: storeInvariant_def handleAddHabit_def Let_def)
  show "storeInvariant (handleAddReminder habitId' reminder st)"
    using assms
    by (auto simp: storeInvariant_def handleAddReminder_def distinct_newSet)
  show "storeInvariant (handleRemoveReminder habitId' reminder st)"
    using assms
    by (auto simp: storeInvariant_def handleRemoveReminder_def sorted_wrt_filter)
  show "storeInvariant (handleDeleteHabit habitId' st)"
    using assms by (auto simp: storeInvariant_def handleDeleteHabit_def)
qed


theorem store_operations_preserve_invariant_witness:
  "storeInvariant (exampleHome [exampleHabit [utf16 ''07:00'', utf16 ''12:00''] [utf16 ''2024-03-09'']])
   \<and> storeInvariant (handleToggleCompletion (utf16 ''habit-1'') (utf16 ''2024-03-08'')
        (exampleHome [exampleHabit [utf16 ''07:00'', utf16 ''12:00''] [utf16 ''2024-03-09'']]))
   \<and> storeInvariant (handleAddReminder (utf16 ''habit-1'') (utf16 ''06:30'')
        (exampleHome [exampleHabit [utf16 ''07:00'', utf16 ''12:00''] [utf16 ''2024-03-09'']]))"
proof -
  let ?st = "exampleHome [exampleHabit [utf16 ''07:00'', utf16 ''12:00''] [utf16 ''2024-03-09'']]"
  have inv: "storeInvariant ?st"
    by (simp add: storeInvariant_def exampleHome_def exampleHabit_def utf16_def)
  from store_operations_preserve_invariant[OF inv, of "utf16 ''habit-1''" "utf16 ''2024-03-08''" _ _ _ "utf16 ''06:30''"]
    store_operations_preserve_invariant[OF inv, of "utf16 ''habit-1''" _ _ _ _ "utf16 ''06:30''"] inv
  show ?thesis by blast
qed

text \<open>
  Claim C10. Toggling a completion, adding a reminder and removing a reminder keep the
  length of the collection and the identifier at every position, and leave every habit
  with another identifier as it was. Deleting a habit keeps a subsequence of the
  collection: no habit with the given identifier remains, and every other habit occurs as
  often as before.
\<close>

theorem targeted_operations_frame:
  "frameOf habitId' (habits st) (habits (handleToggleCompletion habitId' dateKey st))
   \<and> frameOf habitId' (habits st) (habits (handleAddReminder habitId' reminder st))
   \<and> frameOf habitId' (habits st) (habits (handleRemoveReminder habitId' reminder st))
   \<and> subseq (habits (handleDeleteHabit habitId' st)) (habits st)
   \<and> (\<forall>habit \<in> set (habits (handleDeleteHabit habitId' st)). habit_id habit \<noteq> habitId')
   \<and> (\<forall>habit. habit_id habit \<noteq> habitId' \<longrightarrow>
         count_list (habits (handleDeleteHabit habitId' st)) habit
           = count_list (habits st) habit)"
proof (intro conjI ballI allI impI)
  show "frameOf habitId' (habits st) (habits (handleToggleCompletion habitId' dateKey st))"
    by (simp add: frameOf_def handleToggleCompletion_def)
  show "frameOf habitId' (habits st) (habits (handleAddReminder habitId' reminder st))"
    by (simp add: frameOf_def handleAddReminder_def)
  show "frameOf habitId' (habits st) (habits (handleRemoveReminder habitId' reminder st))"
    by (simp add: frameOf_def handleRemoveReminder_def)
  show "subseq (habits (handleDeleteHabit habitId' st)) (habits st)"
    by (simp add: handleDeleteHabit_def)
next
  fix habit
  assume "habit \<in> set (habits (handleDeleteHabit habitId' st))"
  then show "habit_id habit \<noteq> habitId'"
    by (simp add: handleDeleteHabit_def)
next
  fix habit :: Habit
  assume "habit_id habit \<noteq> habitId'"
  then have "count_list (filter (\<lambda>h. habit_id h \<noteq> habitId') hs) habit = count_list hs habit"
    for hs
    by (induction hs) auto
  then show "count_list (habits (handleDeleteHabit habitId' st)) habit
      = count_list (habits st) habit"
    by (simp add: handleDeleteHabit_def)
qed


theorem targeted_operations_frame_witness:
  "habit_id (habits (exampleHome [exampleHabit [utf16 ''07:00''] [], exampleHabit2]) ! 1)
     \<noteq> utf16 ''habit-1''
   \<and> habits (handleToggleCompletion (utf16 ''habit-1'') (utf16 ''2024-03-10'')
        (exampleHome [exampleHabit [utf16 ''07:00''] [], exampleHabit2])) ! 1 = exampleHabit2
   \<and> habits (handleAddReminder (utf16 ''habit-1'') (utf16 ''06:30'')
        (exampleHome [exampleHabit [utf16 ''07:00''] [], exampleHabit2])) ! 1 = exampleHabit2
   \<and> habits (handleRemoveReminder (utf16 ''habit-1'') (utf16 ''07:00'')
        (exampleHome [exampleHabit [utf16 ''07:00''] [], exampleHabit2])) ! 1 = exampleHabit2
   \<and> count_list (habits (handleDeleteHabit (utf16 ''habit-1'')
        (exampleHome [exampleHabit [utf16 ''07:00''] [], exampleHabit2]))) exampleHabit2 = 1"
proof -
  let ?st = "exampleHome [exampleHabit [utf16 ''07:00''] [], exampleHabit2]"
  have h: "habits ?st = [exampleHabit [utf16 ''07:00''] [], exampleHabit2]"
    by (simp add: exampleHome_def)
  have i: "habit_id exampleHabit2 \<noteq> utf16 ''habit-1''" "habit_id (exampleHabit [utf16 ''07:00''] []) = utf16 ''habit-1''"
    by (simp_all add: exampleHabit2_def exampleHabit_def utf16_def)
  have n: "exampleHabit [utf16 ''07:00''] [] \<noteq> exampleHabit2"
    using i by auto
  from targeted_operations_frame[of "utf16 ''habit-1''" ?st "utf16 ''2024-03-10''" "utf16 ''06:30''"]
    targeted_operations_frame[of "utf16 ''habit-1''" ?st "utf16 ''2024-03-10''" "utf16 ''07:00''"]
  show ?thesis
    unfolding frameOf_def h using i n by (simp add: h)
qed

subsection \<open>Adding a habit\<close>

lemma dropWhile_all_iff: "(\<forall>c \<in> set (dropWhile P s). P c) \<longleftrightarrow> (\<forall>c \<in> set s. P c)"
proof
  assume a: "\<forall>c \<in> set (dropWhile P s). P c"
  have "dropWhile P s = []"
  proof (cases "dropWhile P s")
    case Nil
    then show ?thesis .
  next
    case (Cons c cs)
    then have "\<not> P c" using hd_dropWhile[of P s] by simp
    with Cons a show ?thesis by simp
  qed
  then show "\<forall>c \<in> set s. P c" by (simp only: dropWhile_eq_Nil_conv)
next
  assume "\<forall>c \<in> set s. P c"
  then show "\<forall>c \<in> set (dropWhile P s). P c" by (meson set_dropWhileD)
qed

lemma trim_Nil_iff: "trim s = [] \<longleftrightarrow> list_all isWhiteSpace s"
proof -
  have "trim s = [] \<longleftrightarrow> (\<forall>c \<in> set (dropWhile isWhiteSpace s). isWhiteSpace c)"
    by (simp only: trim_def rev_is_Nil_conv dropWhile_eq_Nil_conv set_rev)
  then show ?thesis
    by (simp only: dropWhile_all_iff list_all_iff)
qed

lemma trim_decomposition:
  "\<exists>pre post. s = pre @ trim s @ post \<and> list_all isWhiteSpace pre \<and> list_all isWhiteSpace post"
proof -
  let ?d = "dropWhile isWhiteSpace s"
  have "s = takeWhile isWhiteSpace s @ ?d" by simp
  moreover have "rev ?d = takeWhile isWhiteSpace (rev ?d) @ dropWhile isWhiteSpace (rev ?d)"
    by simp
  then have "rev (rev ?d) = rev (takeWhile isWhiteSpace (rev ?d) @ dropWhile isWhiteSpace (rev ?d))"
    by (rule arg_cong)
  then have "?d = trim s @ rev (takeWhile isWhiteSpace (rev ?d))"
    by (simp only: rev_rev_ident rev_append trim_def)
  ultimately have "s = takeWhile isWhiteSpace s @ trim s @ rev (takeWhile isWhiteSpace (rev ?d))"
    by simp
  moreover have "list_all isWhiteSpace (takeWhile isWhiteSpace s)"
    by (simp add: list_all_iff) (meson set_takeWhileD)
  moreover have "list_all isWhiteSpace (rev (takeWhile isWhiteSpace (rev ?d)))"
    by (simp add: list_all_iff) (meson set_takeWhileD)
  ultimately show ?thesis by blast
qed

lemma trim_ends:
  assumes "trim s \<noteq> []"
  shows "\<not> isWhiteSpace (hd (trim s)) \<and> \<not> isWhiteSpace (last (trim s))"
proof -
  let ?d = "dropWhile isWhiteSpace s"
  let ?x = "dropWhile isWhiteSpace (rev ?d)"
  from assms have x: "?x \<noteq> []" by (simp add: trim_def)
  have d: "?d \<noteq> []"
  proof
    assume "?d = []"
    then have "?x = []" by (simp only: rev.simps dropWhile.simps)
    with x show False by simp
  qed
  have "last (trim s) = hd ?x" using x by (simp add: trim_def last_rev)
  moreover have "\<not> isWhiteSpace (hd ?x)" using x by (rule hd_dropWhile)
  moreover have "hd (trim s) = last ?x" using x by (simp add: trim_def hd_rev)
  moreover have "last ?x = last (rev ?d)"
  proof -
    have "rev ?d = takeWhile isWhiteSpace (rev ?d) @ ?x" by simp
    then have "last (rev ?d) = last (takeWhile isWhiteSpace (rev ?d) @ ?x)" by (rule arg_cong)
    also have "\<dots> = last ?x" using x by (rule last_appendR)
    finally show ?thesis by (rule sym)
  qed
  moreover have "last (rev ?d) = hd ?d" using d by (simp add: last_rev)
  moreover have "\<not> isWhiteSpace (hd ?d)" using d by (rule hd_dropWhile)
  ultimately show ?thesis by simp
qed

lemma set_trim: "set s \<subseteq> set (trim s) \<union> {c. isWhiteSpace c}"
proof -
  from trim_decomposition[of s] obtain pre post where
    "s = pre @ trim s @ post" "list_all isWhiteSpace pre" "list_all isWhiteSpace post"
    by blast
  then have "set s = set pre \<union> set (trim s) \<union> set post" "\<forall>c\<in>set pre. isWhiteSpace c" "\<forall>c\<in>set post. isWhiteSpace c"
    by (metis set_append Un_assoc, simp_all add: list_all_iff)
  then show ?thesis by auto
qed

text \<open>
  Claim C6. With a name that is empty or holds white space only, \<open>handleAddHabit\<close>
  returns the state it was given. Otherwise the collection is the old one with one habit
  put in front, whose name is the trimmed name (the given name is this name between two
  runs of white space, and the name neither begins nor ends with white space), whose
  weekly goal is the given one raised to at least 1, whose completions are empty and whose
  reminders are the one reminder time if it is not empty and none otherwise. White space
  is all of WhiteSpace and LineTerminator, as \<open>String.prototype.trim\<close> has it.
\<close>

theorem handleAddHabit_spec:
  "(list_all isWhiteSpace (name_state st) \<longrightarrow>
      handleAddHabit randomUUID randomIndex nowISO st = st)
   \<and> (\<not> list_all isWhiteSpace (name_state st) \<longrightarrow>
      (\<exists>habit pre post.
         habits (handleAddHabit randomUUID randomIndex nowISO st) = habit # habits st
         \<and> habit_id habit = randomUUID
         \<and> name habit = trim (name_state st)
         \<and> name_state st = pre @ name habit @ post
         \<and> list_all isWhiteSpace pre \<and> list_all isWhiteSpace post
         \<and> \<not> isWhiteSpace (hd (name habit)) \<and> \<not> isWhiteSpace (last (name habit))
         \<and> goalPerWeek habit = max 1 (goalPerWeek_state st)
         \<and> completions habit = []
         \<and> reminders habit = (if reminderTime st = [] then [] else [reminderTime st])))"
proof (intro conjI impI)
  assume "list_all isWhiteSpace (name_state st)"
  then show "handleAddHabit randomUUID randomIndex nowISO st = st"
    by (simp add: handleAddHabit_def trim_Nil_iff)
next
  assume "\<not> list_all isWhiteSpace (name_state st)"
  then have t: "trim (name_state st) \<noteq> []" by (simp add: trim_Nil_iff)
  from trim_decomposition[of "name_state st"] obtain pre post where
    d: "name_state st = pre @ trim (name_state st) @ post"
      "list_all isWhiteSpace pre" "list_all isWhiteSpace post"
    by blast
  let ?habit = "hd (habits (handleAddHabit randomUUID randomIndex nowISO st))"
  have h: "habits (handleAddHabit randomUUID randomIndex nowISO st) = ?habit # habits st"
    "habit_id ?habit = randomUUID" "name ?habit = trim (name_state st)"
    "goalPerWeek ?habit = max 1 (goalPerWeek_state st)" "completions ?habit = []"
    "reminders ?habit = (if reminderTime st = [] then [] else [reminderTime st])"
    using t by (simp_all add: handleAddHabit_def Let_def)
  have "name_state st = pre @ name ?habit @ post"
    by (subst h(3)) (rule d(1))
  moreover have "\<not> isWhiteSpace (hd (name ?habit))" "\<not> isWhiteSpace (last (name ?habit))"
    using trim_ends[OF t] by (simp_all add: h(3))
  ultimately show "\<exists>habit pre post.
         habits (handleAddHabit randomUUID randomIndex nowISO st) = habit # habits st
         \<and> habit_id habit = randomUUID
         \<and> name habit = trim (name_state st)
         \<and> name_state st = pre @ name habit @ post
         \<and> list_all isWhiteSpace pre \<and> list_all isWhiteSpace post
         \<and> \<not> isWhiteSpace (hd (name habit)) \<and> \<not> isWhiteSpace (last (name habit))
         \<and> goalPerWeek habit = max 1 (goalPerWeek_state st)
         \<and> completions habit = []
         \<and> reminders habit = (if reminderTime st = [] then [] else [reminderTime st])"
    using h d(2,3) by blast
qed

theorem handleAddHabit_spec_witness:
  "list_all isWhiteSpace (name_state ((exampleHome [exampleHabit2])\<lparr>name_state := [0x20, 0xA0, 0x2003, 0xFEFF]\<rparr>))
   \<and> handleAddHabit (utf16 ''uuid-1'') 2 (utf16 ''2024-03-10T07:00:00.000Z'')
        ((exampleHome [exampleHabit2])\<lparr>name_state := [0x20, 0xA0, 0x2003, 0xFEFF]\<rparr>)
      = (exampleHome [exampleHabit2])\<lparr>name_state := [0x20, 0xA0, 0x2003, 0xFEFF]\<rparr>
   \<and> \<not> list_all isWhiteSpace (name_state ((exampleHome [exampleHabit2])
        \<lparr>name_state := 0xA0 # utf16 ''Read '' @ [0x3000], goalPerWeek_state := 0, reminderTime := utf16 ''21:30''\<rparr>))
   \<and> tl (habits (handleAddHabit (utf16 ''uuid-1'') 2 (utf16 ''2024-03-10T07:00:00.000Z'')
        ((exampleHome [exampleHabit2])
          \<lparr>name_state := 0xA0 # utf16 ''Read '' @ [0x3000], goalPerWeek_state := 0, reminderTime := utf16 ''21:30''\<rparr>)))
      = [exampleHabit2]
   \<and> name (hd (habits (handleAddHabit (utf16 ''uuid-1'') 2 (utf16 ''2024-03-10T07:00:00.000Z'')
        ((exampleHome [exampleHabit2])
          \<lparr>name_state := 0xA0 # utf16 ''Read '' @ [0x3000], goalPerWeek_state := 0, reminderTime := utf16 ''21:30''\<rparr>))))
      = utf16 ''Read''
   \<and> goalPerWeek (hd (habits (handleAddHabit (utf16 ''uuid-1'') 2 (utf16 ''2024-03-10T07:00:00.000Z'')
        ((exampleHome [exampleHabit2])
          \<lparr>name_state := 0xA0 # utf16 ''Read '' @ [0x3000], goalPerWeek_state := 0, reminderTime := utf16 ''21:30''\<rparr>))))
      = 1
   \<and> reminders (hd (habits (handleAddHabit (utf16 ''uuid-1'') 2 (utf16 ''2024-03-10T07:00:00.000Z'')
        ((exampleHome [exampleHabit2])
          \<lparr>name_state := 0xA0 # utf16 ''Read '' @ [0x3000], goalPerWeek_state := 0, reminderTime := utf16 ''21:30''\<rparr>))))
      = [utf16 ''21:30'']"
proof -
  let ?blank = "(exampleHome [exampleHabit2])\<lparr>name_state := [0x20, 0xA0, 0x2003, 0xFEFF]\<rparr>"
  let ?read = "(exampleHome [exampleHabit2])
      \<lparr>name_state := 0xA0 # utf16 ''Read '' @ [0x3000], goalPerWeek_state := 0, reminderTime := utf16 ''21:30''\<rparr>"
  have a: "list_all isWhiteSpace (name_state ?blank)"
    by (simp add: isWhiteSpace_def)
  have b: "\<not> list_all isWhiteSpace (name_state ?read)"
    by (simp add: isWhiteSpace_def utf16_def)
  have c: "trim (name_state ?read) = utf16 ''Read''"
    by (simp add: trim_def isWhiteSpace_def utf16_def)
  have d: "habits ?read = [exampleHabit2]" "goalPerWeek_state ?read = 0"
    "reminderTime ?read = utf16 ''21:30''"
    by (simp_all add: exampleHome_def)
  from handleAddHabit_spec[of ?blank "utf16 ''uuid-1''" 2 "utf16 ''2024-03-10T07:00:00.000Z''"] a
  have "handleAddHabit (utf16 ''uuid-1'') 2 (utf16 ''2024-03-10T07:00:00.000Z'') ?blank = ?blank"
    by blast
  moreover
  from handleAddHabit_spec[of ?read "utf16 ''uuid-1''" 2 "utf16 ''2024-03-10T07:00:00.000Z''"] b
  obtain habit where
    "habits (handleAddHabit (utf16 ''uuid-1'') 2 (utf16 ''2024-03-10T07:00:00.000Z'') ?read) = habit # habits ?read"
    "name habit = trim (name_state ?read)"
    "goalPerWeek habit = max 1 (goalPerWeek_state ?read)"
    "reminders habit = (if reminderTime ?read = [] then [] else [reminderTime ?read])"
    by blast
  then have
    "tl (habits (handleAddHabit (utf16 ''uuid-1'') 2 (utf16 ''2024-03-10T07:00:00.000Z'') ?read)) = [exampleHabit2]"
    "name (hd (habits (handleAddHabit (utf16 ''uuid-1'') 2 (utf16 ''2024-03-10T07:00:00.000Z'') ?read))) = utf16 ''Read''"
    "goalPerWeek (hd (habits (handleAddHabit (utf16 ''uuid-1'') 2 (utf16 ''2024-03-10T07:00:00.000Z'') ?read))) = 1"
    "reminders (hd (habits (handleAddHabit (utf16 ''uuid-1'') 2 (utf16 ''2024-03-10T07:00:00.000Z'') ?read)))
      = [utf16 ''21:30'']"
    by (simp_all only: list.sel c d) (simp_all add: utf16_def)
  ultimately show ?thesis using a b by blast
qed

section \<open>Loading the stored habits\<close>

lemma buildDefaultHabits_eq:
  "buildDefaultHabits loadedAt now nowISO =
     [(DEFAULT_HABITS loadedAt ! 0)\<lparr>completions := [getDateKey now], createdAt := nowISO\<rparr>,
      (DEFAULT_HABITS loadedAt ! 1)\<lparr>completions := [], createdAt := nowISO\<rparr>]"
  by (simp add: buildDefaultHabits_def DEFAULT_HABITS_def Let_def upt_rec)

text \<open>
  Claim C7, as stated, fails: a stored text that \<open>JSON.parse\<close> accepts is returned as
  parsed even when it is no habit collection. With the text \<open>null\<close> under the storage key
  the loader returns \<open>null\<close> and not the default habits.
\<close>

theorem loadHabitsFromStorage_counterexample:
  "JSON_parse_literals (utf16 ''null'') = Inr JNull
   \<and> \<not> isHabitCollection JNull
   \<and> loadHabitsFromStorage JSON_parse_literals (Some [STORAGE_KEY \<mapsto> utf16 ''null''])
        (utf16 ''2024-03-10T06:59:00.000Z'') \<lparr>getFullYear = 2024, getMonth = 2, getDate = 10\<rparr>
        (utf16 ''2024-03-10T07:00:00.000Z'')
      = Parsed JNull
   \<and> loadHabitsFromStorage JSON_parse_literals (Some [STORAGE_KEY \<mapsto> utf16 ''null''])
        (utf16 ''2024-03-10T06:59:00.000Z'') \<lparr>getFullYear = 2024, getMonth = 2, getDate = 10\<rparr>
        (utf16 ''2024-03-10T07:00:00.000Z'')
      \<noteq> Defaults (buildDefaultHabits (utf16 ''2024-03-10T06:59:00.000Z'')
            \<lparr>getFullYear = 2024, getMonth = 2, getDate = 10\<rparr> (utf16 ''2024-03-10T07:00:00.000Z''))"
  by (simp add: loadHabitsFromStorage_def JSON_parse_literals_def utf16_def)

text \<open>
  Claim C7, amended. Where there is no \<open>window\<close>, where the storage key is absent or holds
  the empty text, and where \<open>JSON.parse\<close> throws on the stored text, the loader returns
  the default habits. A stored text that \<open>JSON.parse\<close> accepts is returned as parsed,
  whatever its shape.
\<close>

theorem loadHabitsFromStorage_fallback:
  "((window = None
      \<or> (\<exists>localStorage. window = Some localStorage
            \<and> (localStorage STORAGE_KEY = None \<or> localStorage STORAGE_KEY = Some []
                \<or> (\<exists>raw e. localStorage STORAGE_KEY = Some raw \<and> JSON_parse raw = Inl e))))
     \<longrightarrow> loadHabitsFromStorage JSON_parse window loadedAt now nowISO
           = Defaults (buildDefaultHabits loadedAt now nowISO))
   \<and> (\<forall>localStorage raw parsed.
         window = Some localStorage \<and> localStorage STORAGE_KEY = Some raw \<and> raw \<noteq> []
           \<and> JSON_parse raw = Inr parsed
         \<longrightarrow> loadHabitsFromStorage JSON_parse window loadedAt now nowISO = Parsed parsed)"
  by (auto simp: loadHabitsFromStorage_def)

theorem loadHabitsFromStorage_fallback_witness:
  "JSON_parse_literals (utf16 ''{'') = Inl SyntaxError
   \<and> loadHabitsFromStorage JSON_parse_literals (Some [STORAGE_KEY \<mapsto> utf16 ''{''])
        (utf16 ''2024-03-10T06:59:00.000Z'') \<lparr>getFullYear = 2024, getMonth = 2, getDate = 10\<rparr>
        (utf16 ''2024-03-10T07:00:00.000Z'')
      = Defaults (buildDefaultHabits (utf16 ''2024-03-10T06:59:00.000Z'')
            \<lparr>getFullYear = 2024, getMonth = 2, getDate = 10\<rparr> (utf16 ''2024-03-10T07:00:00.000Z''))
   \<and> loadHabitsFromStorage JSON_parse_literals (Some Map.empty)
        (utf16 ''2024-03-10T06:59:00.000Z'') \<lparr>getFullYear = 2024, getMonth = 2, getDate = 10\<rparr>
        (utf16 ''2024-03-10T07:00:00.000Z'')
      = Defaults (buildDefaultHabits (utf16 ''2024-03-10T06:59:00.000Z'')
            \<lparr>getFullYear = 2024, getMonth = 2, getDate = 10\<rparr> (utf16 ''2024-03-10T07:00:00.000Z''))
   \<and> JSON_parse_literals (utf16 ''[]'') = Inr (JArray [])
   \<and> loadHabitsFromStorage JSON_parse_literals (Some [STORAGE_KEY \<mapsto> utf16 ''[]''])
        (utf16 ''2024-03-10T06:59:00.000Z'') \<lparr>getFullYear = 2024, getMonth = 2, getDate = 10\<rparr>
        (utf16 ''2024-03-10T07:00:00.000Z'')
      = Parsed (JArray [])"
proof -
  have a: "JSON_parse_literals (utf16 ''{'') = Inl SyntaxError" "JSON_parse_literals (utf16 ''[]'') = Inr (JArray [])"
    by (simp_all add: JSON_parse_literals_def utf16_def)
  have b: "[STORAGE_KEY \<mapsto> utf16 ''{''] STORAGE_KEY = Some (utf16 ''{'')"
    "[STORAGE_KEY \<mapsto> utf16 ''[]''] STORAGE_KEY = Some (utf16 ''[]'')"
    "(Map.empty :: jsstring \<rightharpoonup> jsstring) STORAGE_KEY = None"
    by simp_all
  from loadHabitsFromStorage_fallback[of "Some [STORAGE_KEY \<mapsto> utf16 ''{'']" JSON_parse_literals]
    loadHabitsFromStorage_fallback[of "Some Map.empty" JSON_parse_literals]
    loadHabitsFromStorage_fallback[of "Some [STORAGE_KEY \<mapsto> utf16 ''[]'']" JSON_parse_literals]
    a b
  show ?thesis by (simp (no_asm_use) add: utf16_def) (simp add: utf16_def)
qed

section \<open>Numbers\<close>

subsection \<open>Whole numbers are doubles\<close>

lemma bitLength_bounds: "0 < n \<Longrightarrow> 2 ^ (bitLength n - 1) \<le> n \<and> n < 2 ^ bitLength n"
proof (induction n rule: bitLength.induct)
  case (1 n)
  show ?case
  proof (cases "n div 2 = 0")
    case True
    with 1(2) have n1: "n = 1" by (cases n) auto
    have "bitLength (Suc 0 div 2) = 0" by (subst bitLength.simps) simp
    then have "bitLength 1 = 1" by (subst bitLength.simps) simp
    with n1 show ?thesis by simp
  next
    case False
    then have m: "0 < n div 2" by simp
    from 1(1)[OF _ m] 1(2)
    have IH: "2 ^ (bitLength (n div 2) - 1) \<le> n div 2" "n div 2 < 2 ^ bitLength (n div 2)"
      by simp_all
    have b0: "0 < bitLength (n div 2)" using m by (subst bitLength.simps) simp
    have bl: "bitLength n = Suc (bitLength (n div 2))"
      using 1(2) by (subst bitLength.simps) simp
    have "2 * 2 ^ (bitLength (n div 2) - 1) \<le> 2 * (n div 2)" using IH(1) by simp
    moreover have "2 * 2 ^ (bitLength (n div 2) - 1) = (2::nat) ^ bitLength (n div 2)"
      using b0 by (cases "bitLength (n div 2)") simp_all
    ultimately have lo: "2 ^ bitLength (n div 2) \<le> n" by linarith
    have "n div 2 + 1 \<le> 2 ^ bitLength (n div 2)" using IH(2) by simp
    then have "2 * (n div 2) + 2 \<le> 2 * 2 ^ bitLength (n div 2)" by simp
    then have hi: "n < 2 * 2 ^ bitLength (n div 2)" by linarith
    from lo hi show ?thesis by (simp add: bl)
  qed
qed

lemma roundHalfEven_of_int: "roundHalfEven (of_int m) = m"
  by (simp add: roundHalfEven_def Let_def)

lemma toDouble_of_nat:
  assumes "n < 2 ^ 53"
  shows "toDouble (of_nat n) = Finite (of_nat n)"
proof (cases "n = 0")
  case True
  then show ?thesis by (simp add: toDouble_def)
next
  case False
  then have n: "0 < n" by simp
  let ?b = "bitLength n"
  from bitLength_bounds[OF n] have lo: "2 ^ (?b - 1) \<le> n" and hi: "n < 2 ^ ?b" by simp_all
  have b0: "0 < ?b" using n by (subst bitLength.simps) simp
  have "(2::nat) ^ (?b - 1) < 2 ^ 53" using lo assms by linarith
  then have "?b - 1 < 53" by (simp only: power_strict_increasing_iff[of "2::nat"] one_less_numeral_iff semiring_norm)
  then have b53: "?b \<le> 53" by simp
  define k where "k = 53 - ?b"
  have e: "binaryExponent \<bar>of_nat n\<bar> = int ?b - 1"
    using n by (simp add: binaryExponent_def)
  have m: "max (int ?b - 1) (- 1022) = int ?b - 1" by simp
  have ulp: "twoToThe (int ?b - 1 - 52) = 1 / 2 ^ k"
    using b53 b0 unfolding twoToThe_def k_def
    by (cases "?b = 53") (simp_all add: nat_diff_distrib' algebra_simps)
  have q: "\<bar>of_nat n :: rat\<bar> / (1 / 2 ^ k) = of_int (int (n * 2 ^ k))" by simp
  have r: "(of_int (int (n * 2 ^ k)) :: rat) * (1 / 2 ^ k) = of_nat n" by simp
  have big: "\<not> (2::rat) ^ 1024 \<le> of_nat n"
  proof -
    have "(of_nat n :: rat) < of_nat (2 ^ 53)" using assms by (simp only: of_nat_less_iff)
    also have "\<dots> \<le> 2 ^ 1024" by simp
    finally show ?thesis by simp
  qed
  show ?thesis
    using n big
    by (simp only: toDouble_def Let_def e m ulp q roundHalfEven_of_int r) simp
qed

lemma toDouble_minus: "toDouble (- x) = js_negate (toDouble x)"
  by (simp add: toDouble_def Let_def js_signed_infinity_def)

lemma toDouble_Ints:
  assumes "x \<in> \<int>" "\<bar>x\<bar> < 2 ^ 53"
  shows "toDouble x = Finite x"
proof -
  from assms(1) obtain i where i: "x = of_int i" by (auto elim: Ints_cases)
  show ?thesis
  proof (cases "0 \<le> i")
    case True
    then have x: "x = of_nat (nat i)" using i by simp
    have "nat i < 2 ^ 53" using assms(2) True unfolding i
      by (simp add: nat_less_iff)
    from toDouble_of_nat[OF this] x show ?thesis by simp
  next
    case False
    then have x: "x = - of_nat (nat (- i))" using i by simp
    have "nat (- i) < 2 ^ 53" using assms(2) False unfolding i
      by (simp add: nat_less_iff)
    from toDouble_of_nat[OF this] x show ?thesis by (simp add: toDouble_minus)
  qed
qed

subsection \<open>Conversion of strings\<close>

lemma toDouble_not_NaN [simp]: "toDouble x \<noteq> NaN" "toDouble x \<noteq> Undefined"
  by (simp_all add: toDouble_def Let_def js_signed_infinity_def)

lemma isDigit_not_space: "isDigit c \<Longrightarrow> \<not> isWhiteSpace c"
  by (auto simp: isDigit_def isWhiteSpace_def)

lemma isDigit_numeric: "isDigit c \<Longrightarrow> numericCodeUnit c"
  by (simp add: numericCodeUnit_def)

lemma radixDigit_numeric: "radixDigitValue c = Some v \<Longrightarrow> numericCodeUnit c"
proof -
  assume a: "radixDigitValue c = Some v"
  then consider "48 \<le> c \<and> c \<le> 57" | "97 \<le> c \<and> c \<le> 102" | "65 \<le> c \<and> c \<le> 70"
    by (auto simp: radixDigitValue_def split: if_splits)
  then show ?thesis
  proof cases
    case 1
    then show ?thesis by (simp add: numericCodeUnit_def isDigit_def)
  next
    case 2
    then have "c = 97 \<or> c = 98 \<or> c = 99 \<or> c = 100 \<or> c = 101 \<or> c = 102" by arith
    then show ?thesis by (auto simp: numericCodeUnit_def utf16_def)
  next
    case 3
    then have "c = 65 \<or> c = 66 \<or> c = 67 \<or> c = 68 \<or> c = 69 \<or> c = 70" by arith
    then show ?thesis by (auto simp: numericCodeUnit_def utf16_def)
  qed
qed

lemma radixValue_numeric:
  "radixValue radix acc cs = Some n \<Longrightarrow> \<forall>c \<in> set cs. numericCodeUnit c"
proof (induction cs arbitrary: acc)
  case Nil
  show ?case by simp
next
  case (Cons c cs)
  from Cons.prems obtain v where v: "radixDigitValue c = Some v"
    and r: "radixValue radix (radix * acc + v) cs = Some n"
    by (auto split: option.splits if_splits)
  from radixDigit_numeric[OF v] Cons.IH[OF r] show ?case by simp
qed

lemma nonDecimal_numeric:
  assumes "nonDecimalIntegerLiteral t = Some v"
  shows "\<forall>c \<in> set t. numericCodeUnit c"
proof -
  from assms obtain p d ds radix n where t: "t = 48 # p # d # ds"
    and p: "p \<in> set (utf16 ''xXoObB'')" and r: "radixValue radix 0 (d # ds) = Some n"
    by (auto simp: nonDecimalIntegerLiteral_def Let_def utf16_def
        split: list.splits if_splits)
  have "numericCodeUnit 48" by (simp add: numericCodeUnit_def isDigit_def)
  moreover have "numericCodeUnit p" using p by (auto simp: numericCodeUnit_def utf16_def)
  ultimately show ?thesis using radixValue_numeric[OF r] unfolding t by simp
qed

lemma exponentPart_numeric:
  assumes "exponentPart r = Some e"
  shows "\<forall>c \<in> set r. numericCodeUnit c"
proof (cases r)
  case Nil
  then show ?thesis by simp
next
  case (Cons c r')
  with assms have c: "c = 101 \<or> c = 69"
    and d: "list_all isDigit (if r' \<noteq> [] \<and> (hd r' = 45 \<or> hd r' = 43) then tl r' else r')"
    by (auto simp: exponentPart_def Let_def split: if_splits)
  have nc: "numericCodeUnit c" using c by (auto simp: numericCodeUnit_def utf16_def)
  have "\<forall>x \<in> set r'. numericCodeUnit x"
  proof (cases "r' \<noteq> [] \<and> (hd r' = 45 \<or> hd r' = 43)")
    case True
    then obtain s ds where r': "r' = s # ds" "s = 45 \<or> s = 43" by (cases r') auto
    then have "numericCodeUnit s" by (auto simp: numericCodeUnit_def utf16_def)
    moreover have "\<forall>x \<in> set ds. numericCodeUnit x"
      using d True r' by (auto simp: list_all_iff isDigit_numeric)
    ultimately show ?thesis using r' by simp
  next
    case False
    then show ?thesis using d by (auto simp: list_all_iff isDigit_numeric)
  qed
  with nc Cons show ?thesis by simp
qed

lemma strUnsignedDecimalLiteral_numeric:
  assumes "strUnsignedDecimalLiteral u \<noteq> NaN"
  shows "\<forall>c \<in> set u. numericCodeUnit c"
proof (cases "u = utf16 ''Infinity''")
  case True
  then show ?thesis by (simp add: numericCodeUnit_def utf16_def)
next
  case False
  let ?r1 = "dropWhile isDigit u"
  let ?dot = "?r1 \<noteq> [] \<and> hd ?r1 = 46"
  let ?r2 = "if ?dot then dropWhile isDigit (tl ?r1) else ?r1"
  from assms False obtain e where e: "exponentPart ?r2 = Some e"
    by (auto simp: strUnsignedDecimalLiteral_def Let_def split: if_splits option.splits)
  have i: "\<forall>c \<in> set (takeWhile isDigit u). numericCodeUnit c"
    by (meson set_takeWhileD isDigit_numeric)
  have u: "set u = set (takeWhile isDigit u) \<union> set ?r1"
    by (metis set_append takeWhile_dropWhile_id)
  have "\<forall>c \<in> set ?r1. numericCodeUnit c"
  proof (cases ?dot)
    case True
    then obtain rest where r1: "?r1 = 46 # rest" by (cases ?r1) auto
    have "set rest = set (takeWhile isDigit rest) \<union> set (dropWhile isDigit rest)"
      by (metis set_append takeWhile_dropWhile_id)
    moreover have "\<forall>c \<in> set (takeWhile isDigit rest). numericCodeUnit c"
      by (meson set_takeWhileD isDigit_numeric)
    moreover have "\<forall>c \<in> set (dropWhile isDigit rest). numericCodeUnit c"
      using exponentPart_numeric[OF e] True r1 by simp
    moreover have "numericCodeUnit 46" by (simp add: numericCodeUnit_def utf16_def)
    ultimately show ?thesis unfolding r1 by auto
  next
    case False
    from exponentPart_numeric[OF e] show ?thesis by (simp only: False if_False)
  qed
  with i u show ?thesis by auto
qed

lemma js_negate_NaN: "js_negate v \<noteq> NaN \<Longrightarrow> v \<noteq> NaN"
  by (cases v) simp_all

lemma Number_numeric:
  assumes "Number s \<noteq> NaN"
  shows "\<forall>c \<in> set s. numericCodeUnit c"
proof -
  have t: "\<forall>c \<in> set (trim s). numericCodeUnit c"
  proof (cases "trim s")
    case Nil
    then show ?thesis by simp
  next
    case (Cons c r)
    show ?thesis
    proof (cases "nonDecimalIntegerLiteral (trim s)")
      case (Some v)
      then show ?thesis by (rule nonDecimal_numeric)
    next
      case None
      consider (plus) "c = 43" | (minus) "c = 45" | (other) "c \<noteq> 43" "c \<noteq> 45" by blast
      then show ?thesis
      proof cases
        case plus
        with assms Cons None have "strUnsignedDecimalLiteral r \<noteq> NaN"
          by (simp add: Number_def)
        from strUnsignedDecimalLiteral_numeric[OF this] plus Cons show ?thesis
          by (simp add: numericCodeUnit_def utf16_def)
      next
        case minus
        with assms Cons None have "js_negate (strUnsignedDecimalLiteral r) \<noteq> NaN"
          by (simp add: Number_def)
        then have "strUnsignedDecimalLiteral r \<noteq> NaN" by (rule js_negate_NaN)
        from strUnsignedDecimalLiteral_numeric[OF this] minus Cons show ?thesis
          by (simp add: numericCodeUnit_def utf16_def)
      next
        case other
        with assms Cons None have "strUnsignedDecimalLiteral (trim s) \<noteq> NaN"
          by (simp add: Number_def)
        then show ?thesis by (rule strUnsignedDecimalLiteral_numeric)
      qed
    qed
  qed
  show ?thesis
  proof
    fix c assume "c \<in> set s"
    with set_trim[of s] have "c \<in> set (trim s) \<or> isWhiteSpace c" by auto
    with t show "numericCodeUnit c" by (auto simp: numericCodeUnit_def)
  qed
qed

lemma Number_two_digits:
  assumes "isDigit a" "isDigit b"
  shows "Number [a, b] = Finite (of_nat (10 * digitValue a + digitValue b))"
proof -
  have t: "trim [a, b] = [a, b]"
    using assms by (simp add: trim_def isDigit_not_space)
  have n: "nonDecimalIntegerLiteral [a, b] = None"
    by (simp add: nonDecimalIntegerLiteral_def)
  have s: "a \<noteq> 43" "a \<noteq> 45" "[a, b] \<noteq> utf16 ''Infinity''"
    using assms by (auto simp: isDigit_def utf16_def)
  have "digitValue a < 10" "digitValue b < 10"
    using assms by (auto simp: isDigit_def digitValue_def)
  then have "10 * digitValue a + digitValue b < 2 ^ 53" by simp
  from toDouble_of_nat[OF this]
  have "strUnsignedDecimalLiteral [a, b] = Finite (of_nat (10 * digitValue a + digitValue b))"
    using assms s(3) by (simp add: strUnsignedDecimalLiteral_def exponentPart_def Let_def)
  then show ?thesis
    using s(1,2) by (simp add: Number_def t n)
qed

lemma Number_Nil: "Number [] = Finite 0"
  by (simp add: Number_def trim_def)

subsection \<open>Arithmetic on whole numbers\<close>

lemma toDouble_0 [simp]: "toDouble 0 = Finite 0"
  by (simp add: toDouble_def)

lemma toDouble_numeral:
  "(numeral w :: nat) < 2 ^ 53 \<Longrightarrow> toDouble (numeral w) = Finite (numeral w)"
  using toDouble_of_nat[of "numeral w"] by simp

lemma js_times_nat:
  assumes "a * b < 2 ^ 53"
  shows "js_times (Finite (of_nat a)) (Finite (of_nat b)) = Finite (of_nat (a * b))"
  using toDouble_of_nat[OF assms] by (simp add: js_times_def)

lemma js_plus_nat:
  assumes "a + b < 2 ^ 53"
  shows "js_plus (Finite (of_nat a)) (Finite (of_nat b)) = Finite (of_nat (a + b))"
  using toDouble_of_nat[OF assms] by (simp add: js_plus_def)

lemma js_minus_nat:
  assumes "a < 2 ^ 53" "b < 2 ^ 53"
  shows "js_minus (Finite (of_nat a)) (Finite (of_nat b)) = Finite (of_int (int a - int b))"
proof -
  have "int a < 2 ^ 53" "int b < 2 ^ 53" using assms by simp_all
  then have "\<bar>int a - int b\<bar> < 2 ^ 53" by linarith
  then have "\<bar>of_int (int a - int b) :: rat\<bar> < 2 ^ 53"
    by (metis of_int_abs of_int_less_numeral_power_cancel_iff)
  from toDouble_Ints[OF Ints_of_int this] show ?thesis
    by (simp add: js_minus_def)
qed

lemma js_plus_num_NaN [simp]: "js_plus_num a NaN = NaN" "js_plus_num NaN a = NaN"
  by (cases a; simp)+

section \<open>Reminder evaluation\<close>

subsection \<open>One entry\<close>

lemma tick_reminder_cases:
  "tick_reminder now dateKey nowSeconds habit reminder acc = acc
   \<or> (habit_id habit @ utf16 ''-'' @ reminder @ utf16 ''-'' @ dateKey \<notin> set (fst acc)
      \<and> tick_reminder now dateKey nowSeconds habit reminder acc
          = (fst acc @ [habit_id habit @ utf16 ''-'' @ reminder @ utf16 ''-'' @ dateKey],
             snd acc @ [\<lparr>alert_id = habit_id habit @ utf16 ''-'' @ reminder @ utf16 ''-'' @ dateKey
                             @ utf16 ''-'' @ ToString (getTime now),
                          habitId = habit_id habit, habitName = name habit,
                          time = reminder, timestamp = getTime now\<rparr>]))"
  by (simp add: tick_reminder_def Let_def Set_has_def Set_add_def)

lemma tick_reminder_skip:
  assumes "\<not> convertsToTime reminder"
  shows "tick_reminder now dateKey nowSeconds habit reminder acc = acc"
proof (cases "map Number (split (of_char CHR '':'') reminder)")
  case Nil
  then show ?thesis
    by (simp add: tick_reminder_def Let_def Number_isNaN_def js_less_def js_greater_def
        js_times_def js_plus_def js_minus_def js_less_eq_def)
next
  case (Cons h ms)
  note p = this
  show ?thesis
  proof (cases ms)
    case Nil
    with p show ?thesis
      by (simp add: tick_reminder_def Let_def Number_isNaN_def js_less_def js_greater_def
          js_times_def js_plus_def js_minus_def js_less_eq_def)
  next
    case (Cons m rest)
    with p assms show ?thesis
      by (auto simp add: tick_reminder_def convertsToTime_def Number_isNaN_def)
  qed
qed

lemma validHHMM_shape:
  assumes "validHHMM reminder"
  obtains a b c d where "reminder = [a, b, of_char CHR '':'', c, d]"
    and "isDigit a" "isDigit b" "isDigit c" "isDigit d"
    and "hourOf reminder = 10 * digitValue a + digitValue b"
    and "minuteOf reminder = 10 * digitValue c + digitValue d"
proof -
  from assms have "length reminder = 5" by (simp add: validHHMM_def)
  then obtain a b x c d where r: "reminder = [a, b, x, c, d]"
    by (auto simp: length_Suc_conv numeral_eq_Suc)
  with assms have "x = of_char CHR '':''" "isDigit a" "isDigit b" "isDigit c" "isDigit d"
    by (simp_all add: validHHMM_def)
  with r show ?thesis
    by (intro that[of a b c d]) (simp_all add: hourOf_def minuteOf_def)
qed

lemma split_HHMM:
  assumes "isDigit a" "isDigit b" "isDigit c" "isDigit d"
  shows "split (of_char CHR '':'') [a, b, of_char CHR '':'', c, d] = [[a, b], [c, d]]"
  using assms by (auto simp: isDigit_def)

lemma Number_HHMM:
  assumes "validHHMM reminder"
  shows "map Number (split (of_char CHR '':'') reminder)
     = [Finite (of_nat (hourOf reminder)), Finite (of_nat (minuteOf reminder))]"
proof -
  from assms obtain a b c d where r: "reminder = [a, b, of_char CHR '':'', c, d]"
    and d: "isDigit a" "isDigit b" "isDigit c" "isDigit d"
    and v: "hourOf reminder = 10 * digitValue a + digitValue b"
      "minuteOf reminder = 10 * digitValue c + digitValue d"
    by (rule validHHMM_shape)
  show ?thesis
    unfolding v unfolding r
    by (simp only: split_HHMM[OF d] list.map Number_two_digits d)
qed

lemma validHHMM_convertsToTime:
  assumes "validHHMM reminder"
  shows "convertsToTime reminder"
proof -
  from assms have "hourOf reminder \<le> 23" "minuteOf reminder \<le> 59"
    by (simp_all add: validHHMM_def)
  then show ?thesis
    unfolding convertsToTime_def Number_HHMM[OF assms]
    by (simp add: js_less_def js_greater_def)
qed

lemma tick_reminder_valid:
  assumes "validHHMM reminder" "n < 86400"
  shows "tick_reminder now dateKey (Finite (of_nat n)) habit reminder acc =
     (if \<bar>int n - int (hourOf reminder * 3600 + minuteOf reminder * 60)\<bar> \<le> 30
         \<and> habit_id habit @ utf16 ''-'' @ reminder @ utf16 ''-'' @ dateKey \<notin> set (fst acc)
      then (fst acc @ [habit_id habit @ utf16 ''-'' @ reminder @ utf16 ''-'' @ dateKey],
            snd acc @ [\<lparr>alert_id = habit_id habit @ utf16 ''-'' @ reminder @ utf16 ''-'' @ dateKey
                            @ utf16 ''-'' @ ToString (getTime now),
                         habitId = habit_id habit, habitName = name habit,
                         time = reminder, timestamp = getTime now\<rparr>])
      else acc)"
proof -
  let ?h = "hourOf reminder" and ?m = "minuteOf reminder"
  from assms(1) have b: "?h \<le> 23" "?m \<le> 59" by (simp_all add: validHHMM_def)
  have guard: "\<not> js_less (Finite (of_nat ?h)) (Finite 0)"
    "\<not> js_greater (Finite (of_nat ?h)) (Finite 23)"
    "\<not> js_less (Finite (of_nat ?m)) (Finite 0)"
    "\<not> js_greater (Finite (of_nat ?m)) (Finite 59)"
    using b by (simp_all add: js_less_def js_greater_def)
  have "js_times (Finite (of_nat ?h)) (Finite (of_nat 3600)) = Finite (of_nat (?h * 3600))"
    using b by (intro js_times_nat) simp
  then have t1: "js_times (Finite (of_nat ?h)) (Finite 3600) = Finite (of_nat (?h * 3600))"
    by simp
  have "js_times (Finite (of_nat ?m)) (Finite (of_nat 60)) = Finite (of_nat (?m * 60))"
    using b by (intro js_times_nat) simp
  then have t2: "js_times (Finite (of_nat ?m)) (Finite 60) = Finite (of_nat (?m * 60))"
    by simp
  have t3: "js_plus (Finite (of_nat (?h * 3600))) (Finite (of_nat (?m * 60)))
      = Finite (of_nat (?h * 3600 + ?m * 60))"
    using b by (intro js_plus_nat) simp
  have t4: "js_minus (Finite (of_nat n)) (Finite (of_nat (?h * 3600 + ?m * 60)))
      = Finite (of_int (int n - int (?h * 3600 + ?m * 60)))"
    using b assms(2) by (intro js_minus_nat) simp_all
  have t5: "js_less_eq (js_abs (Finite (of_int (int n - int (?h * 3600 + ?m * 60))))) (Finite 30)
      \<longleftrightarrow> \<bar>int n - int (?h * 3600 + ?m * 60)\<bar> \<le> 30"
  proof -
    have "(\<bar>of_int (int n - int (?h * 3600 + ?m * 60))\<bar> :: rat) \<le> 30
        \<longleftrightarrow> \<bar>int n - int (?h * 3600 + ?m * 60)\<bar> \<le> 30"
      by (metis of_int_abs of_int_le_numeral_iff)
    then show ?thesis by (simp add: js_less_eq_def not_less)
  qed
  show ?thesis
    unfolding tick_reminder_def Number_HHMM[OF assms(1)]
    by (simp only: Let_def list.case guard Number_isNaN_def jsvalue.distinct simp_thms if_False
          t1 t2 t3 t4 t5)
       (simp add: Set_has_def Set_add_def)
qed

subsection \<open>The whole tick\<close>

lemma tick_reminder_reminders_update:
  "tick_reminder now dateKey ns (habit\<lparr>reminders := rs\<rparr>)
     = tick_reminder now dateKey ns habit"
  by (intro ext) (simp add: tick_reminder_def Let_def)

lemma fold_tick_reminder_filter:
  "fold (tick_reminder now dateKey ns habit) (filter convertsToTime rs) acc
     = fold (tick_reminder now dateKey ns habit) rs acc"
  by (induction rs arbitrary: acc) (simp_all add: tick_reminder_skip)

lemma tick_habits_withoutSkippedReminders:
  "tick_habits now dateKey ns (withoutSkippedReminders hs) acc
     = tick_habits now dateKey ns hs acc"
proof (induction hs arbitrary: acc)
  case Nil
  show ?case by (simp add: tick_habits_def withoutSkippedReminders_def)
next
  case (Cons h hs)
  have "fold (tick_reminder now dateKey ns (h\<lparr>reminders := filter convertsToTime (reminders h)\<rparr>))
          (filter convertsToTime (reminders h)) acc
        = fold (tick_reminder now dateKey ns h) (reminders h) acc"
    by (simp only: tick_reminder_reminders_update fold_tick_reminder_filter)
  with Cons.IH show ?case
    by (simp add: tick_habits_def withoutSkippedReminders_def)
qed

lemma fold_preserves:
  assumes "\<And>x acc. P acc \<Longrightarrow> P (f x acc)" and "P acc"
  shows "P (fold f xs acc)"
  using assms(2) by (induction xs arbitrary: acc) (simp_all add: assms(1))

lemma fold_establishes:
  assumes "x \<in> set xs" and "\<And>acc. Q (f x acc)" and "\<And>y acc. Q acc \<Longrightarrow> Q (f y acc)"
  shows "Q (fold f xs acc)"
  using assms(1)
proof (induction xs arbitrary: acc)
  case Nil
  then show ?case by simp
next
  case (Cons y ys)
  show ?case
  proof (cases "x = y")
    case True
    have "Q (fold f ys (f x acc))"
      using assms(3) assms(2) by (rule fold_preserves[where P = Q])
    with True show ?thesis by simp
  next
    case False
    with Cons.prems have "x \<in> set ys" by simp
    then show ?thesis using Cons.IH by simp
  qed
qed

lemma tick_reminder_keys_mono:
  "k \<in> set (fst acc) \<Longrightarrow> k \<in> set (fst (tick_reminder now dateKey ns habit reminder acc))"
  using tick_reminder_cases[of now dateKey ns habit reminder acc] by auto

lemma tick_reminder_fires:
  assumes "validHHMM reminder" "n < 86400"
    and "\<bar>int n - int (hourOf reminder * 3600 + minuteOf reminder * 60)\<bar> \<le> 30"
  shows "habit_id habit @ utf16 ''-'' @ reminder @ utf16 ''-'' @ dateKey
           \<in> set (fst (tick_reminder now dateKey (Finite (of_nat n)) habit reminder acc))"
  using assms(3) by (simp add: tick_reminder_valid[OF assms(1,2)])

lemma tick_reminder_alert_for_key:
  assumes "k \<in> set (fst acc) \<longrightarrow>
      k \<in> set keys0
      \<or> (\<exists>a \<in> set (snd acc). alert_id a = k @ utf16 ''-'' @ ToString (getTime now))"
  shows "k \<in> set (fst (tick_reminder now dateKey ns habit reminder acc)) \<longrightarrow>
      k \<in> set keys0
      \<or> (\<exists>a \<in> set (snd (tick_reminder now dateKey ns habit reminder acc)).
            alert_id a = k @ utf16 ''-'' @ ToString (getTime now))"
  using assms tick_reminder_cases[of now dateKey ns habit reminder acc] by auto

lemma tick_eq:
  "tick now st =
     st\<lparr>reminderCacheRef :=
          \<lparr>date = getDateKey now,
           keys = fst (tick_habits now (getDateKey now) (Finite (of_nat (secondsOfDay now)))
                    (habits st)
                    (if date (reminderCacheRef st) \<noteq> getDateKey now then []
                     else keys (reminderCacheRef st), []))\<rparr>,
        alerts := alerts st
          @ snd (tick_habits now (getDateKey now) (Finite (of_nat (secondsOfDay now)))
                    (habits st)
                    (if date (reminderCacheRef st) \<noteq> getDateKey now then []
                     else keys (reminderCacheRef st), []))\<rparr>"
  by (cases "reminderCacheRef st")
     (simp add: tick_def Let_def secondsOfDay_def split: prod.splits)

lemma tick_habits_keys_mono:
  "k \<in> set (fst acc) \<Longrightarrow> k \<in> set (fst (tick_habits now dateKey ns hs acc))"
  unfolding tick_habits_def
  by (rule fold_preserves[where P = "\<lambda>acc. k \<in> set (fst acc)"],
      rule fold_preserves[where P = "\<lambda>acc. k \<in> set (fst acc)"],
      rule tick_reminder_keys_mono)

lemma tick_habits_fires:
  assumes "habit \<in> set hs" "reminder \<in> set (reminders habit)"
    and "validHHMM reminder" "n < 86400"
    and "\<bar>int n - int (hourOf reminder * 3600 + minuteOf reminder * 60)\<bar> \<le> 30"
  shows "habit_id habit @ utf16 ''-'' @ reminder @ utf16 ''-'' @ dateKey
           \<in> set (fst (tick_habits now dateKey (Finite (of_nat n)) hs acc))"
  unfolding tick_habits_def
proof (rule fold_establishes[where x = habit, OF assms(1)])
  fix acc :: "jsstring list \<times> ReminderAlert list"
  show "habit_id habit @ utf16 ''-'' @ reminder @ utf16 ''-'' @ dateKey
      \<in> set (fst (fold (tick_reminder now dateKey (Finite (of_nat n)) habit) (reminders habit) acc))"
    by (rule fold_establishes[where x = reminder, OF assms(2)])
       (rule tick_reminder_fires[OF assms(3,4,5)], rule tick_reminder_keys_mono)
next
  fix y and acc :: "jsstring list \<times> ReminderAlert list"
  assume "habit_id habit @ utf16 ''-'' @ reminder @ utf16 ''-'' @ dateKey \<in> set (fst acc)"
  then show "habit_id habit @ utf16 ''-'' @ reminder @ utf16 ''-'' @ dateKey
      \<in> set (fst (fold (tick_reminder now dateKey (Finite (of_nat n)) y) (reminders y) acc))"
    by (rule fold_preserves[where P = "\<lambda>acc. _ \<in> set (fst acc)", rotated])
       (rule tick_reminder_keys_mono)
qed

lemma tick_habits_alert_for_key:
  "k \<in> set (fst (tick_habits now dateKey ns hs (keys0, []))) \<longrightarrow>
     k \<in> set keys0
     \<or> (\<exists>a \<in> set (snd (tick_habits now dateKey ns hs (keys0, []))).
           alert_id a = k @ utf16 ''-'' @ ToString (getTime now))"
  unfolding tick_habits_def
  by (rule fold_preserves[where P = "\<lambda>acc. k \<in> set (fst acc) \<longrightarrow> k \<in> set keys0
        \<or> (\<exists>a \<in> set (snd acc). alert_id a = k @ utf16 ''-'' @ ToString (getTime now))"],
      rule fold_preserves[where P = "\<lambda>acc. k \<in> set (fst acc) \<longrightarrow> k \<in> set keys0
        \<or> (\<exists>a \<in> set (snd acc). alert_id a = k @ utf16 ''-'' @ ToString (getTime now))"],
      rule tick_reminder_alert_for_key, simp_all)

subsection \<open>Entries that are skipped\<close>

lemma split_no_separator: "sep \<notin> set s \<Longrightarrow> split sep s = [s]"
  by (induction s) auto

lemma convertsToTime_colon: "convertsToTime reminder \<Longrightarrow> of_char CHR '':'' \<in> set reminder"
proof (rule ccontr)
  assume c: "convertsToTime reminder" and n: "of_char CHR '':'' \<notin> set reminder"
  from n have "split (of_char CHR '':'') reminder = [reminder]" by (rule split_no_separator)
  with c show False unfolding convertsToTime_def by simp
qed

lemma convertsToTime_numeric:
  assumes "convertsToTime reminder"
  shows "\<forall>c \<in> set (split (of_char CHR '':'') reminder ! 0
            @ split (of_char CHR '':'') reminder ! 1). numericCodeUnit c"
proof (cases "split (of_char CHR '':'') reminder")
  case Nil
  with assms show ?thesis by (simp add: convertsToTime_def)
next
  case (Cons h ms)
  note p = this
  show ?thesis
  proof (cases ms)
    case Nil
    with p assms show ?thesis by (simp add: convertsToTime_def)
  next
    case (Cons m rest)
    with p assms have n: "Number h \<noteq> NaN" "Number m \<noteq> NaN"
      by (simp_all add: convertsToTime_def)
    have "\<forall>c \<in> set h. numericCodeUnit c" "\<forall>c \<in> set m. numericCodeUnit c"
      by (rule Number_numeric[OF n(1)], rule Number_numeric[OF n(2)])
    with p Cons show ?thesis by auto
  qed
qed

lemma convertsToTime_two_digits:
  assumes "isDigit a" "isDigit b" "isDigit c" "isDigit d"
  shows "convertsToTime [a, b, of_char CHR '':'', c, d]
     \<longleftrightarrow> 10 * digitValue a + digitValue b \<le> 23 \<and> 10 * digitValue c + digitValue d \<le> 59"
  by (simp only: convertsToTime_def split_HHMM[OF assms] list.map list.case
        Number_two_digits assms)
     (auto simp add: js_less_def js_greater_def)

subsection \<open>Evaluation on the example data\<close>

lemma secondsOfDay_dateAt: "secondsOfDay (dateAt d h m s t) = h * 3600 + m * 60 + s"
  by (simp add: secondsOfDay_def dateAt_def)

lemma getTime_dateAt: "getTime (dateAt d h m s t) = t"
  by (simp add: dateAt_def)

lemma tick_habits_single:
  "tick_habits now dateKey ns [habit] acc
     = fold (tick_reminder now dateKey ns habit) (reminders habit) acc"
  by (simp add: tick_habits_def)

lemma exampleHome_sel:
  "habits (exampleHome hs) = hs" "alerts (exampleHome hs) = []"
  "date (reminderCacheRef (exampleHome hs)) = utf16 ''2024-03-01''"
  "keys (reminderCacheRef (exampleHome hs)) = []"
  by (simp_all add: exampleHome_def)

lemma exampleHabit_sel:
  "habit_id (exampleHabit rs cs) = utf16 ''habit-1''"
  "name (exampleHabit rs cs) = utf16 ''Morning Run''"
  "reminders (exampleHabit rs cs) = rs" "completions (exampleHabit rs cs) = cs"
  by (simp_all add: exampleHabit_def)

lemma example_dates_differ:
  "utf16 ''2024-03-01'' \<noteq> utf16 ''2024-03-10''" "utf16 ''2024-03-01'' \<noteq> utf16 ''2024-03-11''"
  "utf16 ''2024-03-10'' \<noteq> utf16 ''2024-03-11''"
  by (simp_all add: utf16_def)

lemma validHHMM_examples:
  "validHHMM (utf16 ''07:00'')" "\<not> validHHMM (utf16 ''25:00'')" "\<not> validHHMM (utf16 '':'')"
  "\<not> validHHMM (utf16 ''7pm:00'')" "\<not> validHHMM (utf16 ''7'')"
  "hourOf (utf16 ''07:00'') = 7" "minuteOf (utf16 ''07:00'') = 0"
  by (simp_all add: validHHMM_def hourOf_def minuteOf_def utf16_def isDigit_def digitValue_def)




lemma utf16_2500:
  "utf16 ''25:00''
     = [of_char CHR ''2'', of_char CHR ''5'', of_char CHR '':'', of_char CHR ''0'', of_char CHR ''0'']"
  by (simp add: utf16_def)

lemma isDigit_examples:
  "isDigit (of_char CHR ''0'')" "isDigit (of_char CHR ''2'')" "isDigit (of_char CHR ''5'')"
  by (simp_all add: isDigit_def)


subsection \<open>One reminder, fired once a day\<close>

lemma key_0700:
  "habit_id habit @ utf16 ''-'' @ utf16 ''07:00'' @ utf16 ''-'' @ dateKey
     = habit_id habit @ utf16 ''-07:00-'' @ dateKey"
  by (simp add: utf16_def)

lemma tick_single_0700:
  assumes "habits st = [habit]" and "reminders habit = [utf16 ''07:00'']"
    and "secondsOfDay now < 86400"
  shows "tick now st =
    (if \<bar>int (secondsOfDay now) - 25200\<bar> \<le> 30
        \<and> habit_id habit @ utf16 ''-07:00-'' @ getDateKey now
             \<notin> set (if date (reminderCacheRef st) \<noteq> getDateKey now then []
                     else keys (reminderCacheRef st))
     then st\<lparr>reminderCacheRef :=
             \<lparr>date = getDateKey now,
              keys = (if date (reminderCacheRef st) \<noteq> getDateKey now then []
                      else keys (reminderCacheRef st))
                     @ [habit_id habit @ utf16 ''-07:00-'' @ getDateKey now]\<rparr>,
           alerts := alerts st
             @ [\<lparr>alert_id = habit_id habit @ utf16 ''-07:00-'' @ getDateKey now @ utf16 ''-''
                    @ ToString (getTime now),
                 habitId = habit_id habit, habitName = name habit,
                 time = utf16 ''07:00'', timestamp = getTime now\<rparr>]\<rparr>
     else st\<lparr>reminderCacheRef :=
             \<lparr>date = getDateKey now,
              keys = (if date (reminderCacheRef st) \<noteq> getDateKey now then []
                      else keys (reminderCacheRef st))\<rparr>\<rparr>)"
proof -
  note r = tick_reminder_valid[OF validHHMM_examples(1) assms(3), unfolded validHHMM_examples(6,7) key_0700]
  show ?thesis
    unfolding tick_eq assms(1) tick_habits_single assms(2)
    by (simp add: r append_assoc[symmetric] key_0700 del: append_assoc)
qed


lemma getDateKey_next_day_neq:
  assumes "plainDate day" "plainDate nextDay" "dayNumber nextDay = dayNumber day + 1"
  shows "getDateKey day \<noteq> getDateKey nextDay"
proof
  assume "getDateKey day = getDateKey nextDay"
  with assms(1,2) have "dayNumber day = dayNumber nextDay" by (rule getDateKey_inj_dayNumber)
  with assms(3) show False by simp
qed

text \<open>
  Claim C1. A collection of one habit with the reminder \<open>07:00\<close> and an empty cache, and
  two days, one the next calendar day of the other, in the years 0100 to 9999. The tick at
  07:00:00 of the first day adds one alert and leaves the cache with the date identifier of
  that day and the one key of the reminder. The ticks at 07:00:15, 07:00:29 and 07:00:31
  after it change nothing, and a tick at 07:00:31 adds no alert on the empty cache either.
  The date identifier of the next day is another one, and the tick at 07:00:00 of the next
  day adds one new alert and replaces the cache: it then holds the date identifier of the
  next day and the key of the reminder for that day only.
\<close>

theorem reminder_fires_once_per_day:
  fixes day nextDay :: civil
  assumes "habits st = [habit]" and "reminders habit = [utf16 ''07:00'']"
    and "keys (reminderCacheRef st) = []"
    and "plainDate day" and "plainDate nextDay" and "dayNumber nextDay = dayNumber day + 1"
  shows
    "(let s1 = tick (dateAt day 7 0 0 t1) st;
          s2 = tick (dateAt day 7 0 15 t2) s1;
          s3 = tick (dateAt day 7 0 29 t3) s2;
          s4 = tick (dateAt day 7 0 31 t4) s3;
          s5 = tick (dateAt nextDay 7 0 0 t5) s4
      in alerts s1 = alerts st
             @ [\<lparr>alert_id = habit_id habit @ utf16 ''-07:00-'' @ getDateKey day @ utf16 ''-''
                    @ ToString t1,
                 habitId = habit_id habit, habitName = name habit,
                 time = utf16 ''07:00'', timestamp = t1\<rparr>]
         \<and> reminderCacheRef s1
             = \<lparr>date = getDateKey day,
                keys = [habit_id habit @ utf16 ''-07:00-'' @ getDateKey day]\<rparr>
         \<and> s2 = s1 \<and> s3 = s1 \<and> s4 = s1
         \<and> alerts (tick (dateAt day 7 0 31 t4) st) = alerts st
         \<and> getDateKey nextDay \<noteq> getDateKey day
         \<and> alerts s5 = alerts s1
             @ [\<lparr>alert_id = habit_id habit @ utf16 ''-07:00-'' @ getDateKey nextDay @ utf16 ''-''
                    @ ToString t5,
                 habitId = habit_id habit, habitName = name habit,
                 time = utf16 ''07:00'', timestamp = t5\<rparr>]
         \<and> reminderCacheRef s5
             = \<lparr>date = getDateKey nextDay,
                keys = [habit_id habit @ utf16 ''-07:00-'' @ getDateKey nextDay]\<rparr>)"
proof -
  define k1 where "k1 = habit_id habit @ utf16 ''-07:00-'' @ getDateKey day"
  define a1 where "a1 = \<lparr>alert_id = k1 @ utf16 ''-'' @ ToString t1,
      habitId = habit_id habit, habitName = name habit, time = utf16 ''07:00'', timestamp = t1\<rparr>"
  define s1 where "s1 = st\<lparr>reminderCacheRef := \<lparr>date = getDateKey day, keys = [k1]\<rparr>,
      alerts := alerts st @ [a1]\<rparr>"
  have neq: "getDateKey day \<noteq> getDateKey nextDay"
    using assms(4,5,6) by (rule getDateKey_next_day_neq)
  have h1: "habits s1 = [habit]" and c1: "reminderCacheRef s1 = \<lparr>date = getDateKey day, keys = [k1]\<rparr>"
    and al1: "alerts s1 = alerts st @ [a1]"
    by (simp_all add: s1_def assms(1))
  have sec: "secondsOfDay (dateAt d 7 0 s t) < 86400" if "s < 60" for d :: civil and s t
    using that by (simp add: secondsOfDay_dateAt)
  have t1: "tick (dateAt day 7 0 0 t1) st = s1"
    by (simp add: tick_single_0700[OF assms(1,2) sec] secondsOfDay_dateAt
        getTime_dateAt assms(3) s1_def a1_def k1_def)
  have same: "tick (dateAt day 7 0 s t) s1 = s1" if "s < 60" for s t
    by (simp add: tick_single_0700[OF h1 assms(2) sec[OF that]] c1 k1_def)
  have late: "alerts (tick (dateAt day 7 0 31 t4) st) = alerts st"
    by (simp add: tick_single_0700[OF assms(1,2) sec] secondsOfDay_dateAt)
  have t5: "tick (dateAt nextDay 7 0 0 t5) s1 =
      s1\<lparr>reminderCacheRef :=
            \<lparr>date = getDateKey nextDay,
             keys = [habit_id habit @ utf16 ''-07:00-'' @ getDateKey nextDay]\<rparr>,
          alerts := alerts s1
            @ [\<lparr>alert_id = habit_id habit @ utf16 ''-07:00-'' @ getDateKey nextDay @ utf16 ''-''
                   @ ToString t5,
                habitId = habit_id habit, habitName = name habit,
                time = utf16 ''07:00'', timestamp = t5\<rparr>]\<rparr>"
    using neq
    by (simp add: tick_single_0700[OF h1 assms(2) sec] secondsOfDay_dateAt
        getTime_dateAt c1)
  have s2: "tick (dateAt day 7 0 15 t2) s1 = s1" by (rule same) simp
  have s3: "tick (dateAt day 7 0 29 t3) s1 = s1" by (rule same) simp
  have s4: "tick (dateAt day 7 0 31 t4) s1 = s1" by (rule same) simp
  show ?thesis
    unfolding Let_def t1 s2 s3 s4 t5
    using neq by (simp add: late al1 c1 a1_def k1_def)
qed


lemma dayNumber_march_10:
  "dayNumber \<lparr>getFullYear = 2024, getMonth = 2, getDate = 10\<rparr>
     = dayNumber \<lparr>getFullYear = 2024, getMonth = 2, getDate = 9\<rparr> + 1"
proof -
  have "validDate \<lparr>getFullYear = 2024, getMonth = 2, getDate = 10\<rparr>"
    using plainDate_march(3) by (simp only: plainDate_def)
  from dayNumber_previousDay[OF this] show ?thesis
    by (simp add: previousDay_march_10)
qed

theorem reminder_fires_once_per_day_witness:
  "habits (exampleHome [exampleHabit [utf16 ''07:00''] []]) = [exampleHabit [utf16 ''07:00''] []]
   \<and> reminders (exampleHabit [utf16 ''07:00''] []) = [utf16 ''07:00'']
   \<and> keys (reminderCacheRef (exampleHome [exampleHabit [utf16 ''07:00''] []])) = []
   \<and> plainDate \<lparr>getFullYear = 2024, getMonth = 2, getDate = 9\<rparr>
   \<and> plainDate \<lparr>getFullYear = 2024, getMonth = 2, getDate = 10\<rparr>
   \<and> dayNumber \<lparr>getFullYear = 2024, getMonth = 2, getDate = 10\<rparr>
        = dayNumber \<lparr>getFullYear = 2024, getMonth = 2, getDate = 9\<rparr> + 1
   \<and> length (alerts
        (tick (dateAt \<lparr>getFullYear = 2024, getMonth = 2, getDate = 9\<rparr> 7 0 0 1709967600000)
          (exampleHome [exampleHabit [utf16 ''07:00''] []]))) = 1
   \<and> reminderCacheRef
        (tick (dateAt \<lparr>getFullYear = 2024, getMonth = 2, getDate = 9\<rparr> 7 0 0 1709967600000)
          (exampleHome [exampleHabit [utf16 ''07:00''] []]))
      = \<lparr>date = utf16 ''2024-03-09'', keys = [utf16 ''habit-1-07:00-2024-03-09'']\<rparr>
   \<and> tick (dateAt \<lparr>getFullYear = 2024, getMonth = 2, getDate = 9\<rparr> 7 0 31 1709967631000)
        (tick (dateAt \<lparr>getFullYear = 2024, getMonth = 2, getDate = 9\<rparr> 7 0 29 1709967629000)
          (tick (dateAt \<lparr>getFullYear = 2024, getMonth = 2, getDate = 9\<rparr> 7 0 15 1709967615000)
            (tick (dateAt \<lparr>getFullYear = 2024, getMonth = 2, getDate = 9\<rparr> 7 0 0 1709967600000)
              (exampleHome [exampleHabit [utf16 ''07:00''] []]))))
      = tick (dateAt \<lparr>getFullYear = 2024, getMonth = 2, getDate = 9\<rparr> 7 0 0 1709967600000)
          (exampleHome [exampleHabit [utf16 ''07:00''] []])
   \<and> length (alerts
        (tick (dateAt \<lparr>getFullYear = 2024, getMonth = 2, getDate = 10\<rparr> 7 0 0 1710054000000)
          (tick (dateAt \<lparr>getFullYear = 2024, getMonth = 2, getDate = 9\<rparr> 7 0 31 1709967631000)
            (tick (dateAt \<lparr>getFullYear = 2024, getMonth = 2, getDate = 9\<rparr> 7 0 29 1709967629000)
              (tick (dateAt \<lparr>getFullYear = 2024, getMonth = 2, getDate = 9\<rparr> 7 0 15 1709967615000)
                (tick (dateAt \<lparr>getFullYear = 2024, getMonth = 2, getDate = 9\<rparr> 7 0 0 1709967600000)
                  (exampleHome [exampleHabit [utf16 ''07:00''] []]))))))) = 2
   \<and> reminderCacheRef
        (tick (dateAt \<lparr>getFullYear = 2024, getMonth = 2, getDate = 10\<rparr> 7 0 0 1710054000000)
          (tick (dateAt \<lparr>getFullYear = 2024, getMonth = 2, getDate = 9\<rparr> 7 0 31 1709967631000)
            (tick (dateAt \<lparr>getFullYear = 2024, getMonth = 2, getDate = 9\<rparr> 7 0 29 1709967629000)
              (tick (dateAt \<lparr>getFullYear = 2024, getMonth = 2, getDate = 9\<rparr> 7 0 15 1709967615000)
                (tick (dateAt \<lparr>getFullYear = 2024, getMonth = 2, getDate = 9\<rparr> 7 0 0 1709967600000)
                  (exampleHome [exampleHabit [utf16 ''07:00''] []]))))))
      = \<lparr>date = utf16 ''2024-03-10'', keys = [utf16 ''habit-1-07:00-2024-03-10'']\<rparr>"
proof -
  let ?h = "exampleHabit [utf16 ''07:00''] []"
  let ?st = "exampleHome [?h]"
  let ?d9 = "\<lparr>getFullYear = 2024, getMonth = 2, getDate = 9\<rparr>"
  let ?d10 = "\<lparr>getFullYear = 2024, getMonth = 2, getDate = 10\<rparr>"
  have a: "habits ?st = [?h]" "reminders ?h = [utf16 ''07:00'']" "keys (reminderCacheRef ?st) = []"
    and e: "alerts ?st = []"
    by (simp_all add: exampleHome_sel exampleHabit_sel)
  have p: "plainDate ?d9" "plainDate ?d10" "dayNumber ?d10 = dayNumber ?d9 + 1"
    by (simp_all only: plainDate_march dayNumber_march_10)
  let ?s1 = "tick (dateAt ?d9 7 0 0 1709967600000) ?st"
  let ?s2 = "tick (dateAt ?d9 7 0 15 1709967615000) ?s1"
  let ?s3 = "tick (dateAt ?d9 7 0 29 1709967629000) ?s2"
  let ?s4 = "tick (dateAt ?d9 7 0 31 1709967631000) ?s3"
  let ?s5 = "tick (dateAt ?d10 7 0 0 1710054000000) ?s4"
  have key: "habit_id ?h @ utf16 ''-07:00-'' @ utf16 ''2024-03-09'' = utf16 ''habit-1-07:00-2024-03-09''"
    "habit_id ?h @ utf16 ''-07:00-'' @ utf16 ''2024-03-10'' = utf16 ''habit-1-07:00-2024-03-10''"
    by (simp_all add: exampleHabit_sel utf16_def)
  note t = reminder_fires_once_per_day[OF a p, of 1709967600000 1709967615000 1709967629000
      1709967631000 1710054000000, unfolded Let_def getDateKey_march key]
  from t have l1: "length (alerts ?s1) = length (alerts ?st) + 1"
    by (elim conjE) (simp only: length_append list.size)
  from t have c1: "reminderCacheRef ?s1
      = \<lparr>date = utf16 ''2024-03-09'', keys = [utf16 ''habit-1-07:00-2024-03-09'']\<rparr>"
    by (elim conjE)
  from t have s4: "?s4 = ?s1" by (elim conjE)
  from t have "length (alerts ?s5) = length (alerts ?s1) + 1"
    by (elim conjE) (simp only: length_append list.size)
  with l1 have l5: "length (alerts ?s5) = length (alerts ?st) + 1 + 1" by (simp only:)
  from t have c5: "reminderCacheRef ?s5
      = \<lparr>date = utf16 ''2024-03-10'', keys = [utf16 ''habit-1-07:00-2024-03-10'']\<rparr>"
    by (elim conjE)
  from l1 l5 have "length (alerts ?s1) = 1" "length (alerts ?s5) = 2"
    by (simp_all add: e)
  with a p c1 s4 c5 show ?thesis
    by (intro conjI)
qed

section \<open>The longest streak\<close>

lemma sort_march:
  "sort [utf16 ''2024-03-09'', utf16 ''2024-03-10''] = [utf16 ''2024-03-09'', utf16 ''2024-03-10'']"
  by (rule sorted_sort_id) (simp add: utf16_def)

lemma parseDateOnly_march_10:
  "parseDateOnly (utf16 ''2024-03-10'')
     = Some \<lparr>getFullYear = 2024, getMonth = 2, getDate = 10\<rparr>"
  by (simp add: parseDateOnly_def isDigit_def digitValue_def daysInMonth_def isLeapYear_def
      utf16_def)

lemma localReading_march_10:
  "localReading \<lparr>getFullYear = 2024, getMonth = 2, getDate = 10\<rparr> (- 300)
     = clockAt \<lparr>getFullYear = 2024, getMonth = 2, getDate = 9\<rparr> 19 0 0"
  "localReading \<lparr>getFullYear = 2024, getMonth = 2, getDate = 10\<rparr> 0
     = clockAt \<lparr>getFullYear = 2024, getMonth = 2, getDate = 10\<rparr> 0 0 0"
  by (simp_all add: localReading_def previousDay_march_10 clockAt_def)

lemma newDate_march_10:
  "newDate (fixedZone (- 300)) (utf16 ''2024-03-10'')
     = Some (clockAt \<lparr>getFullYear = 2024, getMonth = 2, getDate = 9\<rparr> 19 0 0)"
  "newDate (fixedZone 0) (utf16 ''2024-03-10'')
     = Some (clockAt \<lparr>getFullYear = 2024, getMonth = 2, getDate = 10\<rparr> 0 0 0)"
  by (simp_all add: newDate_def parseDateOnly_march_10 fixedZone_def localReading_march_10)

lemma march_keys_differ:
  "utf16 ''2024-03-10'' \<noteq> []" "utf16 ''2024-03-09'' \<noteq> utf16 ''2024-03-08''"
  "utf16 ''2024-03-08'' \<noteq> utf16 ''2024-03-09''" "utf16 ''2024-03-08'' \<noteq> utf16 ''2024-03-10''"
  "utf16 ''2024-03-09'' \<le> utf16 ''2024-03-10''" "utf16 ''2024-03-09'' \<noteq> utf16 ''2024-03-10''"
  by (simp_all add: utf16_def)

text \<open>
  Claim C4 fails on the code where local time is behind UTC. \<open>new Date(previous)\<close> reads
  the date key as UTC midnight, which the local getters place on the day before, so the
  expected predecessor is two days before \<open>previous\<close> and no run of consecutive days is
  ever counted. Five hours behind UTC, with the completions 2024-03-09 and 2024-03-10 and
  the current date 2024-03-10, the current streak is 2 and the longest streak is 1; with
  local time on UTC the longest streak is 2.
\<close>

theorem getLongestStreak_behind_utc:
  "computeStreak (fixedZone (- 300)) (exampleHabit [] [utf16 ''2024-03-09'', utf16 ''2024-03-10''])
     (clockAt \<lparr>getFullYear = 2024, getMonth = 2, getDate = 10\<rparr> 12 0 0) = Some 2
   \<and> getLongestStreak (fixedZone (- 300))
        (exampleHabit [] [utf16 ''2024-03-09'', utf16 ''2024-03-10'']) = Inr 1
   \<and> getLongestStreak (fixedZone 0)
        (exampleHabit [] [utf16 ''2024-03-09'', utf16 ''2024-03-10'']) = Inr 2"
proof (intro conjI)
  let ?d = "clockAt \<lparr>getFullYear = 2024, getMonth = 2, getDate = 10\<rparr> 12 0 0"
  let ?cs = "[utf16 ''2024-03-09'', utf16 ''2024-03-10'']"
  have "computeStreak_loop (fixedZone (- 300)) (newSet ?cs) ?d 0 = Some (0 + 2)"
  proof (rule computeStreak_loop_run)
    show "\<forall>i<2. getDateKey ((decrementDate (fixedZone (- 300)) ^^ i) ?d) \<in> set (newSet ?cs)"
      by (simp add: set_newSet less_2_cases_iff previousDay_march_10 getDateKey_march)
    show "getDateKey ((decrementDate (fixedZone (- 300)) ^^ 2) ?d) \<notin> set (newSet ?cs)"
      by (simp add: set_newSet funpow_2 previousDay_march_10 previousDay_march_9
          getDateKey_march march_keys_differ)
  qed
  then show "computeStreak (fixedZone (- 300)) (exampleHabit [] ?cs) ?d = Some 2"
    by (simp add: computeStreak_def exampleHabit_def)
  show "getLongestStreak (fixedZone (- 300)) (exampleHabit [] ?cs) = Inr 1"
    by (simp add: getLongestStreak_def exampleHabit_def sort_march newDate_march_10
        previousDay_march_9 getDateKey_march march_keys_differ)
  show "getLongestStreak (fixedZone 0) (exampleHabit [] ?cs) = Inr 2"
    by (simp add: getLongestStreak_def exampleHabit_def sort_march newDate_march_10
        previousDay_march_10 getDateKey_march march_keys_differ)
qed

subsection \<open>The order of date keys\<close>

lemma less_append_same_length:
  fixes xs ys :: "'a::linorder list"
  assumes "length xs = length ys"
  shows "xs @ us < ys @ vs \<longleftrightarrow> xs < ys \<or> (xs = ys \<and> us < vs)"
  using assms by (induction xs ys rule: list_induct2) auto

lemma digitChar_less_iff: "digitChar a < digitChar b \<longleftrightarrow> a mod 10 < b mod 10"
  by (simp add: digitChar_def)

lemma digitChar_eq_iff: "digitChar a = digitChar b \<longleftrightarrow> a mod 10 = b mod 10"
  by (simp add: digitChar_def)

lemma mod_Suc_power_10: "(n::nat) mod 10 ^ Suc w = 10 * (n div 10 mod 10 ^ w) + n mod 10"
  using mod_mult2_eq[of n 10 "10 ^ w"] by simp

lemma digits_eq_iff:
  "x < 10 \<Longrightarrow> y < 10 \<Longrightarrow> p = q \<and> x = y \<longleftrightarrow> 10 * p + x = 10 * q + (y::nat)"
  by arith

lemma digits_less_iff:
  "x < 10 \<Longrightarrow> y < 10 \<Longrightarrow> p < q \<or> (p = q \<and> x < y) \<longleftrightarrow> 10 * p + x < 10 * q + (y::nat)"
  by arith

lemma padStart_eq_iff: "padStart w a = padStart w b \<longleftrightarrow> a mod 10 ^ w = b mod 10 ^ w"
proof (induction w arbitrary: a b)
  case 0
  show ?case by simp
next
  case (Suc w)
  have "padStart (Suc w) a = padStart (Suc w) b
      \<longleftrightarrow> padStart w (a div 10) = padStart w (b div 10) \<and> digitChar a = digitChar b"
    by simp
  also have "\<dots> \<longleftrightarrow> a div 10 mod 10 ^ w = b div 10 mod 10 ^ w \<and> a mod 10 = b mod 10"
    by (simp only: Suc.IH digitChar_eq_iff)
  also have "\<dots> \<longleftrightarrow> a mod 10 ^ Suc w = b mod 10 ^ Suc w"
    unfolding mod_Suc_power_10 by (rule digits_eq_iff) simp_all
  finally show ?case .
qed

lemma padStart_less_iff: "padStart w a < padStart w b \<longleftrightarrow> a mod 10 ^ w < b mod 10 ^ w"
proof (induction w arbitrary: a b)
  case 0
  show ?case by simp
next
  case (Suc w)
  have "padStart (Suc w) a < padStart (Suc w) b
      \<longleftrightarrow> padStart w (a div 10) < padStart w (b div 10)
          \<or> (padStart w (a div 10) = padStart w (b div 10) \<and> digitChar a < digitChar b)"
    by (simp add: less_append_same_length length_padStart)
  also have "\<dots> \<longleftrightarrow> a div 10 mod 10 ^ w < b div 10 mod 10 ^ w
      \<or> (a div 10 mod 10 ^ w = b div 10 mod 10 ^ w \<and> a mod 10 < b mod 10)"
    by (simp only: Suc.IH padStart_eq_iff digitChar_less_iff)
  also have "\<dots> \<longleftrightarrow> a mod 10 ^ Suc w < b mod 10 ^ Suc w"
    unfolding mod_Suc_power_10 by (rule digits_less_iff) simp_all
  finally show ?case .
qed

lemma getDateKey_less_iff:
  fixes a b :: civil
  assumes "plainDate a" "plainDate b"
  shows "getDateKey a < getDateKey b \<longleftrightarrow> dateBefore a b"
proof -
  have bounds: "nat (getFullYear d) mod 10 ^ 4 = nat (getFullYear d)"
    "(getMonth d + 1) mod 10 ^ 2 = getMonth d + 1" "getDate d mod 10 ^ 2 = getDate d"
    "0 \<le> getFullYear d"
    if "plainDate d" for d :: civil
    using that daysInMonth_le[of "getFullYear d" "getMonth d"]
    by (auto simp: plainDate_def validDate_def)
  have "getDateKey a < getDateKey b \<longleftrightarrow>
      padStart 4 (nat (getFullYear a)) < padStart 4 (nat (getFullYear b))
      \<or> (padStart 4 (nat (getFullYear a)) = padStart 4 (nat (getFullYear b))
          \<and> (padStart 2 (getMonth a + 1) < padStart 2 (getMonth b + 1)
              \<or> (padStart 2 (getMonth a + 1) = padStart 2 (getMonth b + 1)
                  \<and> padStart 2 (getDate a) < padStart 2 (getDate b))))"
    unfolding getDateKey_plain[OF assms(1)] getDateKey_plain[OF assms(2)]
    by (simp add: less_append_same_length length_padStart utf16_def)
  also have "\<dots> \<longleftrightarrow>
      nat (getFullYear a) < nat (getFullYear b)
      \<or> (nat (getFullYear a) = nat (getFullYear b)
          \<and> (getMonth a + 1 < getMonth b + 1
              \<or> (getMonth a + 1 = getMonth b + 1 \<and> getDate a < getDate b)))"
    by (simp only: padStart_less_iff padStart_eq_iff bounds[OF assms(1)] bounds[OF assms(2)])
  also have "\<dots> \<longleftrightarrow> dateBefore a b"
    using bounds(4)[OF assms(1)] bounds(4)[OF assms(2)] by (auto simp: dateBefore_def)
  finally show ?thesis .
qed

lemma dateBefore_previousDay: "validDate d \<Longrightarrow> dateBefore (previousDay d) d"
  by (auto simp: dateBefore_def previousDay_def validDate_def)

lemma nothing_between_days:
  fixes d x :: civil
  assumes "validDate d" "validDate x" "dateBefore (previousDay d) x" "dateBefore x d"
  shows False
proof -
  obtain y m n where d: "d = \<lparr>getFullYear = y, getMonth = m, getDate = n\<rparr>"
    by (cases d) simp
  obtain y' m' n' where x: "x = \<lparr>getFullYear = y', getMonth = m', getDate = n'\<rparr>"
    by (cases x) simp
  from assms(1) have vd: "m < 12" "1 \<le> n" "n \<le> daysInMonth y m"
    by (simp_all add: d validDate_def)
  from assms(2) have vx: "m' < 12" "1 \<le> n'" "n' \<le> daysInMonth y' m'"
    by (simp_all add: x validDate_def)
  from assms(4) have up: "y' < y \<or> (y' = y \<and> (m' < m \<or> (m' = m \<and> n' < n)))"
    by (simp add: d x dateBefore_def)
  consider (day) "1 < n" | (month) "n = 1" "0 < m" | (year) "n = 1" "m = 0"
    using vd by linarith
  then show False
  proof cases
    case day
    then have "previousDay d = \<lparr>getFullYear = y, getMonth = m, getDate = n - 1\<rparr>"
      by (simp add: d previousDay_def)
    with assms(3) have "y < y' \<or> (y = y' \<and> (m < m' \<or> (m = m' \<and> n - 1 < n')))"
      by (simp add: x dateBefore_def)
    with up show False by linarith
  next
    case month
    then have "previousDay d
        = \<lparr>getFullYear = y, getMonth = m - 1, getDate = daysInMonth y (m - 1)\<rparr>"
      by (simp add: d previousDay_def)
    with assms(3) have lo: "y < y' \<or> (y = y' \<and> (m - 1 < m' \<or> (m - 1 = m' \<and> daysInMonth y (m - 1) < n')))"
      by (simp add: x dateBefore_def)
    from up month vx(2) have up': "y' < y \<or> (y' = y \<and> m' < m)" by auto
    from lo up' have "y = y'" "m' = m - 1" "daysInMonth y (m - 1) < n'" by linarith+
    with vx(3) show False by simp
  next
    case year
    then have "previousDay d = \<lparr>getFullYear = y - 1, getMonth = 11, getDate = 31\<rparr>"
      by (simp add: d previousDay_def)
    with assms(3) have lo: "y - 1 < y' \<or> (y - 1 = y' \<and> (11 < m' \<or> (11 = m' \<and> 31 < n')))"
      by (simp add: x dateBefore_def)
    from up year vx(2) have up': "y' < y" by auto
    from lo up' vx(1) have "31 < n'" by linarith
    with vx(3) daysInMonth_le[of y' m'] show False by simp
  qed
qed

subsection \<open>Runs in a decreasing list\<close>

lemma adjacent_in_decreasing:
  fixes L :: "'a::linorder list"
  assumes "sorted_wrt (>) L" "a \<in> set L" "b \<in> set L" "b < a"
    and "\<forall>x \<in> set L. \<not> (b < x \<and> x < a)"
  shows "\<exists>pre post. L = pre @ a # b # post"
proof -
  from assms(2) obtain pre rest where L: "L = pre @ a # rest"
    by (auto dest: split_list)
  from assms(1) have above: "\<forall>x \<in> set pre. a < x" and below: "\<forall>x \<in> set rest. x < a"
    and rest: "sorted_wrt (>) rest"
    by (auto simp: L sorted_wrt_append)
  from assms(3,4) above have "b \<in> set rest"
    by (auto simp: L)
  then obtain r rs where r: "rest = r # rs" by (cases rest) auto
  have "r = b"
  proof (rule ccontr)
    assume "r \<noteq> b"
    with \<open>b \<in> set rest\<close> r have "b \<in> set rs" by simp
    with rest r have "b < r" by simp
    moreover have "r < a" using below r by simp
    moreover have "r \<in> set L" by (simp add: L r)
    ultimately show False using assms(5) by blast
  qed
  with L r show ?thesis by blast
qed

lemma decreasing_distinct:
  fixes L :: "'a::linorder list"
  shows "sorted_wrt (>) L \<Longrightarrow> distinct L"
  by (induction L) auto

lemma block_in_decreasing:
  fixes L :: "'a::linorder list"
  assumes "sorted_wrt (>) L" and "\<forall>i \<le> k. K i \<in> set L"
    and "\<forall>i < k. K (Suc i) < K i \<and> (\<forall>x \<in> set L. \<not> (K (Suc i) < x \<and> x < K i))"
  shows "\<exists>pre post. L = pre @ map K [0 ..< Suc k] @ post"
  using assms(2,3)
proof (induction k)
  case 0
  then have "K 0 \<in> set L" by simp
  then obtain pre post where "L = pre @ K 0 # post" by (auto dest: split_list)
  then show ?case by auto
next
  case (Suc k)
  from Suc.prems have "\<exists>pre post. L = pre @ map K [0 ..< Suc k] @ post"
    by (intro Suc.IH) auto
  then obtain pre post where 1: "L = (pre @ map K [0 ..< k]) @ K k # post"
    by auto
  from Suc.prems have "K k \<in> set L" "K (Suc k) \<in> set L" "K (Suc k) < K k"
    "\<forall>x \<in> set L. \<not> (K (Suc k) < x \<and> x < K k)"
    by auto
  with assms(1) have "\<exists>pre' post'. L = pre' @ K k # K (Suc k) # post'"
    by (intro adjacent_in_decreasing)
  then obtain pre' post' where 2: "L = pre' @ K k # K (Suc k) # post'" by blast
  have "distinct L"
    using assms(1) by (rule decreasing_distinct)
  then have "K k \<notin> set (pre @ map K [0 ..< k])" "K k \<notin> set post"
    unfolding 1 by auto
  then have "post = K (Suc k) # post'"
    using 1 2 by (metis append_Cons_eq_iff)
  with 1 have "L = pre @ map K [0 ..< Suc (Suc k)] @ post'" by simp
  then show ?case by blast
qed

subsection \<open>The loop of the longest streak, local time not behind UTC\<close>

lemma getDateKey_not_Nil: "plainDate d \<Longrightarrow> getDateKey d \<noteq> []"
  by (simp add: getDateKey_plain utf16_def)

lemma newDate_getDateKey:
  fixes d :: civil
  shows "plainDate d \<Longrightarrow> newDate z (getDateKey d) = Some (localReading d (utcOffset z d))"
  by (simp add: newDate_def parseDateOnly_getDateKey civil_truncate_id)

lemma getDateKey_previousDay_localReading:
  "0 \<le> minutes \<Longrightarrow> getDateKey (previousDay (localReading d minutes)) = getDateKey (previousDay d)"
  by (simp add: localReading_def previousDay_def getDateKey_def Let_def)

lemma decrementDate_notBehindUTC: "notBehindUTC z \<Longrightarrow> decrementDate z = previousDay"
  by (rule ext) (simp add: decrementDate_def notBehindUTC_def)

lemma longest_loop_first:
  "getLongestStreak_loop z (x # rest) longest current None
     = getLongestStreak_loop z rest (max longest 1) 1 (Some x)"
  by simp

lemma longest_loop_step:
  fixes d :: civil
  assumes "notBehindUTC z" "plainDate d"
  shows "getLongestStreak_loop z (x # rest) longest current (Some (getDateKey d))
     = getLongestStreak_loop z rest
         (max longest (if x = getDateKey (previousDay d) then current + 1 else 1))
         (if x = getDateKey (previousDay d) then current + 1 else 1) (Some x)"
proof -
  from assms(1) have "0 \<le> utcOffset z d" by (simp add: notBehindUTC_def)
  then have "getDateKey (decrementDate z (localReading d (utcOffset z d))) = getDateKey (previousDay d)"
    by (simp only: decrementDate_notBehindUTC[OF assms(1)] getDateKey_previousDay_localReading)
  then show ?thesis
    using assms(2) by (simp add: newDate_getDateKey getDateKey_not_Nil Let_def)
qed

lemma longest_loop_total:
  assumes "notBehindUTC z"
    and "\<forall>x \<in> set xs. \<exists>d::civil. plainDate d \<and> x = getDateKey d"
    and "previous = None \<or> (\<exists>d::civil. plainDate d \<and> previous = Some (getDateKey d))"
  shows "\<exists>l. getLongestStreak_loop z xs longest current previous = Inr l \<and> longest \<le> l"
  using assms(2,3)
proof (induction xs arbitrary: longest current previous)
  case Nil
  then show ?case by simp
next
  case (Cons x xs)
  from Cons.prems(1) obtain dx :: civil where dx: "plainDate dx" "x = getDateKey dx"
    by auto
  have next_ok: "Some x = None \<or> (\<exists>d::civil. plainDate d \<and> Some x = Some (getDateKey d))"
    using dx by blast
  from Cons.prems(1) have rest: "\<forall>x \<in> set xs. \<exists>d::civil. plainDate d \<and> x = getDateKey d"
    by simp
  from Cons.prems(2) show ?case
  proof
    assume "previous = None"
    moreover from Cons.IH[OF rest next_ok, of "max longest 1" 1]
    obtain l where "getLongestStreak_loop z xs (max longest 1) 1 (Some x) = Inr l"
      "max longest 1 \<le> l" by blast
    ultimately show ?thesis by (auto simp: longest_loop_first)
  next
    assume "\<exists>d::civil. plainDate d \<and> previous = Some (getDateKey d)"
    then obtain d :: civil where d: "plainDate d" "previous = Some (getDateKey d)" by blast
    let ?c = "if x = getDateKey (previousDay d) then current + 1 else 1"
    from Cons.IH[OF rest next_ok, of "max longest ?c" ?c]
    obtain l where "getLongestStreak_loop z xs (max longest ?c) ?c (Some x) = Inr l"
      "max longest ?c \<le> l" by blast
    then show ?thesis
      unfolding d(2) longest_loop_step[OF assms(1) d(1)] by auto
  qed
qed

lemma longest_loop_chain:
  fixes d0 :: civil
  assumes "notBehindUTC z" and "\<forall>i \<le> j. plainDate ((previousDay ^^ i) d0)"
    and "current \<le> longest"
  shows "getLongestStreak_loop z
           (map (\<lambda>i. getDateKey ((previousDay ^^ i) d0)) [1 ..< Suc j] @ rest)
           longest current (Some (getDateKey d0))
         = getLongestStreak_loop z rest (max longest (current + j)) (current + j)
             (Some (getDateKey ((previousDay ^^ j) d0)))"
  using assms(2,3)
proof (induction j arbitrary: d0 longest current)
  case 0
  then show ?case by (simp add: max_absorb1)
next
  case (Suc j)
  from Suc.prems(1) have "plainDate ((previousDay ^^ 0) d0)" by blast
  then have p0: "plainDate d0" by simp
  have p: "\<forall>i \<le> j. plainDate ((previousDay ^^ i) (previousDay d0))"
  proof (intro allI impI)
    fix i assume "i \<le> j"
    then have "Suc i \<le> Suc j" by simp
    with Suc.prems(1) have "plainDate ((previousDay ^^ Suc i) d0)" by blast
    then show "plainDate ((previousDay ^^ i) (previousDay d0))"
      by (simp add: funpow_swap1)
  qed
  have shift: "map (\<lambda>i. getDateKey ((previousDay ^^ i) d0)) [1 ..< Suc (Suc j)]
      = getDateKey (previousDay d0)
        # map (\<lambda>i. getDateKey ((previousDay ^^ i) (previousDay d0))) [1 ..< Suc j]"
  proof -
    have "[1 ..< Suc (Suc j)] = 1 # map Suc [1 ..< Suc j]"
      by (simp only: map_Suc_upt) (simp add: upt_conv_Cons)
    then show ?thesis
      by (simp add: funpow_swap1 comp_def del: upt_Suc)
  qed
  let ?chain = "map (\<lambda>i. getDateKey ((previousDay ^^ i) (previousDay d0))) [1 ..< Suc j]"
  have "getLongestStreak_loop z
      (map (\<lambda>i. getDateKey ((previousDay ^^ i) d0)) [1 ..< Suc (Suc j)] @ rest)
      longest current (Some (getDateKey d0))
    = getLongestStreak_loop z (?chain @ rest)
        (max longest (current + 1)) (current + 1) (Some (getDateKey (previousDay d0)))"
    by (simp only: shift append_Cons longest_loop_step[OF assms(1) p0] if_True simp_thms)
  also have "\<dots> = getLongestStreak_loop z rest
      (max (max longest (current + 1)) (current + 1 + j))
      (current + 1 + j) (Some (getDateKey ((previousDay ^^ j) (previousDay d0))))"
    by (rule Suc.IH[OF p]) simp
  also have "max (max longest (current + 1)) (current + 1 + j) = max longest (current + Suc j)"
    by simp
  also have "current + 1 + j = current + Suc j" by simp
  also have "(previousDay ^^ j) (previousDay d0) = (previousDay ^^ Suc j) d0"
    by (simp add: funpow_swap1)
  finally show ?case .
qed

lemma longest_loop_prefix:
  assumes "notBehindUTC z"
    and "\<forall>y \<in> set pre. \<exists>d::civil. plainDate d \<and> y = getDateKey d"
    and "previous = None \<or> (\<exists>d::civil. plainDate d \<and> previous = Some (getDateKey d))"
  shows "\<exists>longest' current'. 1 \<le> current' \<and> current' \<le> longest'
      \<and> getLongestStreak_loop z (pre @ x # rest) longest current previous
        = getLongestStreak_loop z rest longest' current' (Some x)"
  using assms(2,3)
proof (induction pre arbitrary: longest current previous)
  case Nil
  from Nil.prems(2) show ?case
  proof
    assume "previous = None"
    then have "getLongestStreak_loop z ([] @ x # rest) longest current previous
        = getLongestStreak_loop z rest (max longest 1) 1 (Some x)"
      by simp
    moreover have "(1::nat) \<le> 1 \<and> 1 \<le> max longest 1" by simp
    ultimately show ?thesis by blast
  next
    assume "\<exists>d::civil. plainDate d \<and> previous = Some (getDateKey d)"
    then obtain d :: civil where d: "plainDate d" "previous = Some (getDateKey d)" by blast
    let ?c = "if x = getDateKey (previousDay d) then current + 1 else 1"
    have "getLongestStreak_loop z ([] @ x # rest) longest current previous
        = getLongestStreak_loop z rest (max longest ?c) ?c (Some x)"
      unfolding d(2) append_Nil by (rule longest_loop_step[OF assms(1) d(1)])
    moreover have "1 \<le> ?c \<and> ?c \<le> max longest ?c" by simp
    ultimately show ?thesis by blast
  qed
next
  case (Cons y ys)
  from Cons.prems(1) obtain dy :: civil where dy: "plainDate dy" "y = getDateKey dy"
    by auto
  have next_ok: "Some y = None \<or> (\<exists>d::civil. plainDate d \<and> Some y = Some (getDateKey d))"
    using dy by blast
  from Cons.prems(1) have rest: "\<forall>y \<in> set ys. \<exists>d::civil. plainDate d \<and> y = getDateKey d"
    by simp
  from Cons.prems(2) show ?case
  proof
    assume "previous = None"
    then have "getLongestStreak_loop z ((y # ys) @ x # rest) longest current previous
        = getLongestStreak_loop z (ys @ x # rest) (max longest 1) 1 (Some y)"
      by simp
    with Cons.IH[OF rest next_ok, of "max longest 1" 1] show ?thesis by simp
  next
    assume "\<exists>d::civil. plainDate d \<and> previous = Some (getDateKey d)"
    then obtain d :: civil where d: "plainDate d" "previous = Some (getDateKey d)" by blast
    let ?c = "if y = getDateKey (previousDay d) then current + 1 else 1"
    have "getLongestStreak_loop z ((y # ys) @ x # rest) longest current previous
        = getLongestStreak_loop z (ys @ x # rest) (max longest ?c) ?c (Some y)"
      unfolding d(2) append_Cons by (rule longest_loop_step[OF assms(1) d(1)])
    with Cons.IH[OF rest next_ok, of "max longest ?c" ?c] show ?thesis by simp
  qed
qed

lemma getDateKey_inj_civil:
  fixes a b :: civil
  assumes "plainDate a" "plainDate b" "getDateKey a = getDateKey b"
  shows "a = b"
  using getDateKey_inj[OF assms] by (simp only: civil_truncate_id)

lemma getFullYear_previousDay_ge: "getFullYear d - 1 \<le> getFullYear (previousDay d)"
  by (simp add: previousDay_def)

lemma walk_plainDate:
  fixes today :: civil
  assumes "plainDate today"
    and "\<forall>c \<in> set cs. \<exists>d::civil. plainDate d \<and> 101 \<le> getFullYear d \<and> c = getDateKey d"
    and "\<forall>j < i. getDateKey ((previousDay ^^ j) today) \<in> set cs"
  shows "plainDate ((previousDay ^^ i) today)"
  using assms(3)
proof (induction i)
  case 0
  show ?case using assms(1) by simp
next
  case (Suc i)
  let ?d = "(previousDay ^^ i) today"
  from Suc.prems have "\<forall>j < i. getDateKey ((previousDay ^^ j) today) \<in> set cs" by simp
  then have p: "plainDate ?d" by (rule Suc.IH)
  from Suc.prems have "getDateKey ?d \<in> set cs" by simp
  with assms(2) obtain d :: civil where d: "plainDate d" "101 \<le> getFullYear d"
    "getDateKey ?d = getDateKey d" by blast
  from p d(1,3) have "?d = d" by (rule getDateKey_inj_civil)
  with d(2) have "101 \<le> getFullYear ?d" by simp
  with p getFullYear_previousDay_ge[of ?d] getFullYear_previousDay[of ?d]
  have "plainDate (previousDay ?d)"
    by (simp add: plainDate_def validDate_previousDay)
  then show ?case by simp
qed

lemma walk_leaves_completions:
  fixes today :: civil
  assumes "plainDate today"
    and "\<forall>c \<in> set cs. \<exists>d::civil. plainDate d \<and> 101 \<le> getFullYear d \<and> c = getDateKey d"
  shows "\<exists>i \<le> length cs. getDateKey ((previousDay ^^ i) today) \<notin> set cs"
proof (rule ccontr)
  assume "\<not> (\<exists>i \<le> length cs. getDateKey ((previousDay ^^ i) today) \<notin> set cs)"
  then have all: "\<forall>i \<le> length cs. getDateKey ((previousDay ^^ i) today) \<in> set cs" by blast
  then have "\<forall>j < length cs. getDateKey ((previousDay ^^ j) today) \<in> set cs" by simp
  with assms have top: "plainDate ((previousDay ^^ length cs) today)"
    by (rule walk_plainDate)
  have "inj_on (\<lambda>i. getDateKey ((previousDay ^^ i) today)) {..length cs}"
  proof (rule inj_onI)
    fix i j
    assume "i \<in> {..length cs}" "j \<in> {..length cs}"
      and e: "getDateKey ((previousDay ^^ i) today) = getDateKey ((previousDay ^^ j) today)"
    then have "i \<le> length cs" "j \<le> length cs" by simp_all
    with assms(1) top show "i = j" using e by (rule getDateKey_funpow_inj)
  qed
  then have "card ((\<lambda>i. getDateKey ((previousDay ^^ i) today)) ` {..length cs}) = Suc (length cs)"
    by (simp add: card_image)
  moreover have "(\<lambda>i. getDateKey ((previousDay ^^ i) today)) ` {..length cs} \<subseteq> set cs"
    using all by auto
  then have "card ((\<lambda>i. getDateKey ((previousDay ^^ i) today)) ` {..length cs}) \<le> card (set cs)"
    by (intro card_mono) simp_all
  moreover have "card (set cs) \<le> length cs" by (rule card_length)
  ultimately show False by simp
qed

lemma previousDay_truncate: "civil.truncate (previousDay d) = previousDay (civil.truncate d)"
  by (simp add: previousDay_def civil.truncate_def)

lemma previousDay_funpow_truncate:
  "civil.truncate ((previousDay ^^ i) d) = (previousDay ^^ i) (civil.truncate d)"
  by (induction i) (simp_all add: previousDay_truncate)

lemma getDateKey_truncate: "getDateKey (civil.truncate d) = getDateKey d"
  by (simp add: getDateKey_def civil.truncate_def)

text \<open>
  Where local time is not behind UTC and the zone skips no local time, the longest streak
  is at least the current streak: for completions without duplicates that are keys of
  dates in the years 0101 to 9999 and a current date in the years 0100 to 9999, both
  functions return and the current streak does not exceed the longest one.
\<close>

lemma getLongestStreak_ge_computeStreak:
  assumes "notBehindUTC z" and "distinct (completions habit)" and "plainDate now"
    and keys: "\<forall>c \<in> set (completions habit).
      \<exists>d::civil. plainDate d \<and> 101 \<le> getFullYear d \<and> c = getDateKey d"
  shows "\<exists>current longest. computeStreak z habit now = Some current
    \<and> getLongestStreak z habit = Inr longest \<and> current \<le> longest"
proof -
  define today where "today = civil.truncate now"
  have today: "plainDate today"
    using assms(3) by (simp add: today_def plainDate_def validDate_def civil.truncate_def)
  have walk: "getDateKey ((decrementDate z ^^ i) now) = getDateKey ((previousDay ^^ i) today)" for i
  proof -
    have "getDateKey ((previousDay ^^ i) today) = getDateKey (civil.truncate ((previousDay ^^ i) now))"
      by (simp only: today_def previousDay_funpow_truncate)
    then show ?thesis
      by (simp only: getDateKey_truncate decrementDate_notBehindUTC[OF assms(1)])
  qed
  define cs where "cs = completions habit"
  define K where "K = (\<lambda>i. getDateKey ((previousDay ^^ i) today))"
  define L where "L = rev (sort cs)"
  have keys': "\<forall>c \<in> set cs. \<exists>d::civil. plainDate d \<and> 101 \<le> getFullYear d \<and> c = getDateKey d"
    using keys by (simp add: cs_def)
  have setL: "set L = set cs" by (simp add: L_def)
  have plainL: "\<forall>x \<in> set xs. \<exists>d::civil. plainDate d \<and> x = getDateKey d" if "set xs \<subseteq> set L" for xs
    using that keys' setL by blast
  from walk_leaves_completions[OF today keys'] have "\<exists>i. K i \<notin> set cs"
    by (auto simp: K_def)
  define k where "k = (LEAST i. K i \<notin> set cs)"
  have out: "K k \<notin> set cs"
    unfolding k_def using \<open>\<exists>i. K i \<notin> set cs\<close> by (rule LeastI_ex)
  have inside: "K i \<in> set cs" if "i < k" for i
    using not_less_Least[of i "\<lambda>i. K i \<notin> set cs"] that by (auto simp: k_def)
  have plain: "plainDate ((previousDay ^^ i) today)" if "i \<le> k" for i
  proof (rule walk_plainDate[OF today keys'], intro allI impI)
    fix j assume "j < i"
    with that have "j < k" by simp
    then show "getDateKey ((previousDay ^^ j) today) \<in> set cs"
      using inside by (simp add: K_def)
  qed
  have current: "computeStreak z habit now = Some k"
  proof -
    have "computeStreak_loop z (newSet cs) now 0 = Some (0 + k)"
      by (rule computeStreak_loop_run) (use inside out in \<open>auto simp: set_newSet K_def walk\<close>)
    then show ?thesis by (simp add: computeStreak_def cs_def)
  qed
  have "\<exists>l. getLongestStreak_loop z L 0 0 None = Inr l \<and> k \<le> l"
  proof (cases k)
    case 0
    from longest_loop_total[OF assms(1) plainL[OF subset_refl], of None 0 0]
    show ?thesis using 0 by auto
  next
    case (Suc j)
    have dec: "sorted_wrt (>) L"
    proof -
      have "sorted_wrt (<) (sort cs)"
        using assms(2) by (simp add: strict_sorted_iff cs_def)
      then show ?thesis by (simp add: L_def sorted_wrt_rev)
    qed
    have inL: "\<forall>i \<le> j. K i \<in> set L"
      using inside Suc by (simp add: setL)
    have gaps: "\<forall>i < j. K (Suc i) < K i \<and> (\<forall>x \<in> set L. \<not> (K (Suc i) < x \<and> x < K i))"
    proof (intro allI impI conjI ballI)
      fix i assume i: "i < j"
      let ?d = "(previousDay ^^ i) today"
      have p: "plainDate ?d" "plainDate (previousDay ?d)"
        using plain[of i] plain[of "Suc i"] i Suc by simp_all
      then have v: "validDate ?d" by (simp add: plainDate_def)
      show "K (Suc i) < K i"
        using dateBefore_previousDay[OF v] by (simp add: K_def getDateKey_less_iff p)
      fix x assume "x \<in> set L"
      then obtain dx :: civil where dx: "plainDate dx" "x = getDateKey dx"
        using plainL[OF subset_refl] by blast
      show "\<not> (K (Suc i) < x \<and> x < K i)"
      proof
        assume "K (Suc i) < x \<and> x < K i"
        then have "dateBefore (previousDay ?d) dx" "dateBefore dx ?d"
          by (simp_all add: K_def dx(2) getDateKey_less_iff p dx(1))
        with v dx(1) show False
          by (intro nothing_between_days[of ?d dx]) (simp_all add: plainDate_def)
      qed
    qed
    from block_in_decreasing[OF dec inL gaps]
    obtain pre post where split: "L = pre @ map K [0 ..< Suc j] @ post" by blast
    have block: "map K [0 ..< Suc j] = K 0 # map K [1 ..< Suc j]"
      by (simp add: upt_conv_Cons del: upt_Suc)
    have sub: "set pre \<subseteq> set L" "set post \<subseteq> set L"
      by (auto simp: split)
    have plain_j: "\<forall>i \<le> j. plainDate ((previousDay ^^ i) today)"
      using plain Suc by simp
    from longest_loop_prefix[OF assms(1) plainL[OF sub(1)], of None "K 0"
        "map K [1 ..< Suc j] @ post" 0 0]
    obtain longest' current' where pc: "1 \<le> current'" "current' \<le> longest'"
      and 1: "getLongestStreak_loop z (pre @ K 0 # map K [1 ..< Suc j] @ post) 0 0 None
        = getLongestStreak_loop z (map K [1 ..< Suc j] @ post) longest' current'
            (Some (K 0))"
      by auto
    have 2: "getLongestStreak_loop z (map K [1 ..< Suc j] @ post) longest' current'
          (Some (K 0))
        = getLongestStreak_loop z post (max longest' (current' + j)) (current' + j)
            (Some (K j))"
      using longest_loop_chain[OF assms(1) plain_j pc(2), of post]
      by (simp add: K_def del: upt_Suc)
    from longest_loop_total[OF assms(1) plainL[OF sub(2)],
        of "Some (K j)" "max longest' (current' + j)" "current' + j"] plain_j
    obtain l where 3: "getLongestStreak_loop z post (max longest' (current' + j))
          (current' + j) (Some (K j)) = Inr l"
      and "max longest' (current' + j) \<le> l"
      by (auto simp: K_def)
    with pc(1) have "k \<le> l" using Suc by simp
    moreover have "getLongestStreak_loop z L 0 0 None = Inr l"
      by (simp only: split block append_Cons 1 2 3)
    ultimately show ?thesis by blast
  qed
  then obtain l where "getLongestStreak z habit = Inr l" "k \<le> l"
    by (auto simp: getLongestStreak_def L_def cs_def)
  with current show ?thesis by blast
qed


end
